theory Spec2Isabelle
  imports Complex_Main "HOL-Library.AList" "HOL-Library.Log_Nat"
begin

section \<open>Python values used by the agent and the controller\<close>

text \<open>
  A Python \<open>str\<close> is a \<open>string\<close>; every character that occurs in the modelled inputs is a
  code point below 256. A \<open>dict\<close> with string keys is an association list in insertion
  order: \<open>d[k] = v\<close> is \<open>AList.update k v d\<close> (an existing key keeps its place, a new key
  goes to the end), \<open>k in d\<close> is \<open>map_of d k \<noteq> None\<close>, and iteration follows the list.
\<close>

type_synonym 'v pydict = "(string \<times> 'v) list"

datatype py_exception =
  RetryExhausted | IndexError | KeyError | ValueError | ValidationError | AttributeError

definition py_whitespace :: "char \<Rightarrow> bool" where
  \<comment> \<open>the code points below 256 for which \<open>str.isspace\<close> holds\<close>
  "py_whitespace c \<longleftrightarrow>
     c \<in> set [CHR 0x09, CHR 0x0A, CHR 0x0B, CHR 0x0C, CHR 0x0D, CHR 0x1C, CHR 0x1D,
               CHR 0x1E, CHR 0x1F, CHR 0x20, CHR 0x85, CHR 0xA0]"

definition py_linebreak :: "char \<Rightarrow> bool" where
  \<comment> \<open>the line boundaries of \<open>str.splitlines\<close> below 256\<close>
  "py_linebreak c \<longleftrightarrow>
     c \<in> set [CHR 0x0A, CHR 0x0B, CHR 0x0C, CHR 0x0D, CHR 0x1C, CHR 0x1D, CHR 0x1E, CHR 0x85]"

fun splitlines_from :: "string \<Rightarrow> string \<Rightarrow> string list" where
  "splitlines_from cur [] = (if cur = [] then [] else [cur])"
| "splitlines_from cur [c] =
     (if py_linebreak c then [cur] else [cur @ [c]])"
| "splitlines_from cur (c # d # cs) =
     (if c = CHR 0x0D \<and> d = CHR 0x0A then cur # splitlines_from [] cs
      else if py_linebreak c then cur # splitlines_from [] (d # cs)
      else splitlines_from (cur @ [c]) (d # cs))"

definition splitlines :: "string \<Rightarrow> string list" where
  \<comment> \<open>\<open>s.splitlines()\<close>: no line for the text after a final line boundary\<close>
  "splitlines s = splitlines_from [] s"

definition strip :: "string \<Rightarrow> string" where
  \<comment> \<open>\<open>s.strip()\<close>\<close>
  "strip s = rev (dropWhile py_whitespace (rev (dropWhile py_whitespace s)))"

fun split_from :: "string \<Rightarrow> string \<Rightarrow> string list" where
  "split_from cur [] = (if cur = [] then [] else [cur])"
| "split_from cur (c # cs) =
     (if py_whitespace c then (if cur = [] then split_from [] cs else cur # split_from [] cs)
      else split_from (cur @ [c]) cs)"

definition split_ws :: "string \<Rightarrow> string list" where
  \<comment> \<open>\<open>s.split()\<close>: the maximal runs of non-whitespace\<close>
  "split_ws s = split_from [] s"

definition startswith :: "string \<Rightarrow> string \<Rightarrow> bool" where
  "startswith s pre \<longleftrightarrow> take (length pre) s = pre"

definition endswith :: "string \<Rightarrow> string \<Rightarrow> bool" where
  \<comment> \<open>\<open>s.endswith(suf)\<close>\<close>
  "endswith s suf \<longleftrightarrow> length suf \<le> length s \<and> drop (length s - length suf) s = suf"

fun str_in :: "string \<Rightarrow> string \<Rightarrow> bool" where
  \<comment> \<open>\<open>sub in s\<close> on strings: \<open>sub\<close> occurs in \<open>s\<close> as a contiguous substring\<close>
  "str_in sub [] = (sub = [])"
| "str_in sub (c # cs) = (startswith (c # cs) sub \<or> str_in sub cs)"

definition split_first :: "char \<Rightarrow> string \<Rightarrow> string" where
  \<comment> \<open>\<open>s.split(sep)[0]\<close> for a one-character separator: the text before the first \<open>sep\<close>\<close>
  "split_first sep s = takeWhile (\<lambda>c. c \<noteq> sep) s"

fun split_on :: "char \<Rightarrow> string \<Rightarrow> string list" where
  \<comment> \<open>\<open>s.split(sep)\<close> for a one-character separator; never the empty list\<close>
  "split_on sep [] = [[]]"
| "split_on sep (c # cs) =
     (if c = sep then [] # split_on sep cs
      else (case split_on sep cs of w # ws \<Rightarrow> (c # w) # ws | [] \<Rightarrow> [[c]]))"

fun list_index :: "'a list \<Rightarrow> 'a \<Rightarrow> nat option" where
  \<comment> \<open>\<open>xs.index(x)\<close>; \<open>None\<close> stands for ValueError\<close>
  "list_index [] x = None"
| "list_index (y # ys) x =
     (if y = x then Some 0 else map_option Suc (list_index ys x))"

section \<open>Addresses and the allowed subnet (module ipaddress, IPv4)\<close>

text \<open>
  \<open>ipaddress.ip_address\<close> accepts an IPv4 address as four decimal octets separated by
  dots: each octet one to three ASCII digits, no leading zero, at most 255. The allowed
  subnet is an IPv4 network; a string that is no IPv4 address either raises ValueError
  or denotes an IPv6 address, and membership of an IPv6 address in an IPv4 network is
  false, so in both cases the subnet check answers False.
\<close>

definition is_digit :: "char \<Rightarrow> bool" where
  "is_digit c \<longleftrightarrow> c \<in> set ''0123456789''"

definition digit_val :: "char \<Rightarrow> int" where
  "digit_val c = of_char c - 48"

definition decimal :: "string \<Rightarrow> int" where
  "decimal s = foldl (\<lambda>n c. 10 * n + digit_val c) 0 s"

definition parse_octet :: "string \<Rightarrow> int option" where
  "parse_octet s =
     (if s = [] then None
      else if \<not> list_all is_digit s then None
      else if length s > 3 then None
      else if s \<noteq> ''0'' \<and> hd s = CHR ''0'' then None
      else if decimal s > 255 then None
      else Some (decimal s))"

definition ip_address :: "string \<Rightarrow> int option" where
  \<comment> \<open>the address as an integer below \<open>2 ^ 32\<close>; \<open>None\<close> when the string is no IPv4 address\<close>
  "ip_address s =
     (case map parse_octet (split_on CHR ''.'' s) of
        [Some a, Some b, Some c, Some d] \<Rightarrow> Some (((a * 256 + b) * 256 + c) * 256 + d)
      | _ \<Rightarrow> None)"

record ip_network =
  network_address :: int
  prefixlen :: int

definition broadcast_address :: "ip_network \<Rightarrow> int" where
  "broadcast_address n = network_address n + (2 ^ nat (32 - prefixlen n) - 1)"

definition network_contains :: "ip_network \<Rightarrow> int \<Rightarrow> bool" where
  \<comment> \<open>\<open>ip in network\<close>\<close>
  "network_contains n ip \<longleftrightarrow> network_address n \<le> ip \<and> ip \<le> broadcast_address n"

section \<open>The route executor (agent/executor.py)\<close>

text \<open>
  \<open>subprocess.run\<close> either returns with an exit status, the captured standard output
  and the captured standard error, or raises TimeoutExpired, or raises another exception
  (the program cannot be started). With \<open>check=True\<close> a non-zero exit status raises
  CalledProcessError. The system the commands run on is a function from the commands run
  so far and the command to its outcome; the executor's effect is the list of commands it
  has run, oldest first.
\<close>

datatype proc_result = Exited int string string | TimeoutExpired | LaunchError

type_synonym command = "string list"

type_synonym shell = "command list \<Rightarrow> command \<Rightarrow> proc_result"

record Executor =
  wg_interface :: string
  allowed_subnet :: ip_network
  current_routes :: "string pydict"

definition Executor_init :: "string \<Rightarrow> ip_network \<Rightarrow> Executor" where
  "Executor_init iface subnet =
     \<lparr>wg_interface = iface, allowed_subnet = subnet, current_routes = []\<rparr>"

definition is_ip_in_allowed_subnet :: "Executor \<Rightarrow> string \<Rightarrow> bool" where
  "is_ip_in_allowed_subnet ex ip_str =
     (case ip_address ip_str of
        Some ip \<Rightarrow> network_contains (allowed_subnet ex) ip
      | None \<Rightarrow> False)"

definition generate_route_add_command :: "Executor \<Rightarrow> string \<Rightarrow> string \<Rightarrow> command option" where
  "generate_route_add_command ex dst_ip next_hop =
     (if \<not> is_ip_in_allowed_subnet ex dst_ip then None
      else if \<not> is_ip_in_allowed_subnet ex next_hop then None
      else Some [''ip'', ''route'', ''replace'', dst_ip @ ''/32'',
                 ''via'', next_hop, ''dev'', wg_interface ex])"

definition generate_route_del_command :: "Executor \<Rightarrow> string \<Rightarrow> command option" where
  "generate_route_del_command ex dst_ip =
     (if \<not> is_ip_in_allowed_subnet ex dst_ip then None
      else Some [''ip'', ''route'', ''del'', dst_ip @ ''/32'', ''dev'', wg_interface ex])"

subsection \<open>Reading the kernel table\<close>

definition parse_route_line :: "Executor \<Rightarrow> string pydict \<Rightarrow> string \<Rightarrow> string pydict" where
  \<comment> \<open>the body of the loop over the lines of the listing; \<open>routes\<close> is the dict built so far\<close>
  "parse_route_line ex routes raw =
     (let line = strip raw in
      if line = [] then routes
      else if \<not> str_in (wg_interface ex) line then routes
      else
        let parts = split_ws line in
        if length parts < 3 then routes
        else
          let dst = parts ! 0 in
          if CHR ''/'' \<in> set dst \<and> \<not> endswith dst ''/32'' then routes
          else
            let dst_ip = (if CHR ''/'' \<in> set dst then split_first CHR ''/'' dst else dst) in
            (case list_index parts ''via'' of
               Some via_index \<Rightarrow>
                 if via_index + 1 < length parts
                 then AList.update dst_ip (parts ! (via_index + 1)) routes
                 else routes
             | None \<Rightarrow> AList.update dst_ip ''direct'' routes))"

definition parse_route_listing :: "Executor \<Rightarrow> string \<Rightarrow> string pydict" where
  "parse_route_listing ex out = foldl (parse_route_line ex) [] (splitlines out)"

definition show_command :: command where
  "show_command = [''ip'', ''route'', ''show'', ''table'', ''main'']"

definition get_current_routes ::
  "shell \<Rightarrow> Executor \<Rightarrow> command list \<Rightarrow> string pydict \<times> Executor \<times> command list" where
  "get_current_routes sh ex tr =
     (case sh tr show_command of
        Exited rc out err \<Rightarrow>
          if rc \<noteq> 0 then ([], ex, tr @ [show_command])
          else
            let routes = parse_route_listing ex out in
            (routes, ex\<lparr>current_routes := routes\<rparr>, tr @ [show_command])
      | TimeoutExpired \<Rightarrow> ([], ex, tr @ [show_command])
      | LaunchError \<Rightarrow> ([], ex, tr @ [show_command]))"

subsection \<open>The difference of two tables\<close>

definition diff_desired_step ::
  "string pydict \<Rightarrow> string pydict \<times> string pydict \<Rightarrow> string \<times> string
     \<Rightarrow> string pydict \<times> string pydict" where
  "diff_desired_step current acc item =
     (case (acc, item) of
        ((routes_to_add, routes_to_modify), (dst_ip, next_hop)) \<Rightarrow>
          (case map_of current dst_ip of
             None \<Rightarrow> (AList.update dst_ip next_hop routes_to_add, routes_to_modify)
           | Some cur \<Rightarrow>
               if cur \<noteq> next_hop
               then (routes_to_add, AList.update dst_ip next_hop routes_to_modify)
               else (routes_to_add, routes_to_modify)))"

definition calculate_route_diff ::
  "string pydict \<Rightarrow> string pydict \<Rightarrow> string pydict \<times> string pydict \<times> string list" where
  "calculate_route_diff desired current =
     (let (routes_to_add, routes_to_modify) =
            foldl (diff_desired_step current) ([], []) desired;
          routes_to_delete =
            filter (\<lambda>dst_ip. map_of desired dst_ip = None) (map fst current)
      in (routes_to_add, routes_to_modify, routes_to_delete))"

subsection \<open>Applying one route\<close>

definition apply_route ::
  "shell \<Rightarrow> Executor \<Rightarrow> command list \<Rightarrow> string \<Rightarrow> string \<Rightarrow> bool \<times> command list" where
  "apply_route sh ex tr dst_ip next_hop =
     (if next_hop = ''direct'' then
        (case generate_route_del_command ex dst_ip of
           None \<Rightarrow> (False, tr)
         | Some command \<Rightarrow>
             (case sh tr command of
                Exited rc out err \<Rightarrow> (True, tr @ [command])
              | TimeoutExpired \<Rightarrow> (False, tr @ [command])
              | LaunchError \<Rightarrow> (False, tr @ [command])))
      else
        (case generate_route_add_command ex dst_ip next_hop of
           None \<Rightarrow> (False, tr)
         | Some command \<Rightarrow>
             (case sh tr command of
                Exited rc out err \<Rightarrow>
                  if rc = 0 then (True, tr @ [command]) else (False, tr @ [command])
              | TimeoutExpired \<Rightarrow> (False, tr @ [command])
              | LaunchError \<Rightarrow> (False, tr @ [command]))))"

subsection \<open>Flushing, and the statements that follow it\<close>

definition apply_item ::
  "shell \<Rightarrow> Executor \<Rightarrow> bool \<times> command list \<Rightarrow> string \<times> string \<Rightarrow> bool \<times> command list" where
  \<comment> \<open>one round of \<open>if not self.apply_route(dst_ip, next_hop): success = False\<close>\<close>
  "apply_item sh ex acc item =
     (case (acc, item) of
        ((success, tr), (dst_ip, next_hop)) \<Rightarrow>
          (case apply_route sh ex tr dst_ip next_hop of
             (ok, tr') \<Rightarrow> (if \<not> ok then False else success, tr')))"

definition flush_all_routes ::
  "shell \<Rightarrow> Executor \<Rightarrow> command list \<Rightarrow> bool \<times> Executor \<times> command list" where
  "flush_all_routes sh ex tr =
     (case get_current_routes sh ex tr of
        (current, ex1, tr1) \<Rightarrow>
          if current = [] then (True, ex1, tr1)
          else
            (case foldl (apply_item sh ex1) (True, tr1)
                    (map (\<lambda>dst_ip. (dst_ip, ''direct'')) (map fst current)) of
               (success, tr2) \<Rightarrow> (success, ex1, tr2)))"

record RouteConfig =
  dst_cidr :: string
  next_hop :: string
  reason :: string

text \<open>
  In executor.py the statements documented as synchronising the kernel table with the
  desired configuration (lines 347 to 399) stand inside the body of \<open>flush_all_routes\<close>,
  after its \<open>try\<close> statement, every branch of which returns. No \<open>def\<close> introduces them
  and they read a name \<open>desired_routes\<close> that is bound nowhere. \<open>sync_statements\<close> is what
  they would compute if they were run with \<open>desired_routes\<close> bound.
\<close>

definition sync_statements ::
  "shell \<Rightarrow> Executor \<Rightarrow> command list \<Rightarrow> RouteConfig list \<Rightarrow> bool \<times> Executor \<times> command list" where
  "sync_statements sh ex tr desired_routes =
     (let desired_dict =
            foldl (\<lambda>d route. AList.update (split_first CHR ''/'' (dst_cidr route)) (next_hop route) d)
              [] desired_routes
      in (case get_current_routes sh ex tr of
            (current_dict, ex1, tr1) \<Rightarrow>
              (case calculate_route_diff desired_dict current_dict of
                 (to_add, to_modify, to_delete) \<Rightarrow>
                   (case foldl (apply_item sh ex1)
                           (foldl (apply_item sh ex1)
                              (foldl (apply_item sh ex1) (True, tr1) to_add)
                              to_modify)
                           (map (\<lambda>dst_ip. (dst_ip, ''direct'')) to_delete) of
                      (success, tr2) \<Rightarrow> (success, ex1, tr2)))))"

definition Executor_methods :: "string list" where
  \<comment> \<open>the names that the \<open>def\<close> statements of class Executor bind\<close>
  "Executor_methods =
     [''__init__'', ''get_current_routes'', ''_is_ip_in_allowed_subnet'',
      ''generate_route_add_command'', ''generate_route_del_command'',
      ''calculate_route_diff'', ''apply_route'', ''flush_all_routes'']"

section \<open>The controller client (agent/client.py)\<close>

text \<open>
  A request either gets a response (a status code and a body) or raises one of the
  exceptions of the requests library. The body of a response is classified by what
  \<open>fetch_routes\<close> does with it: it is no JSON, or JSON without the field \<open>routes\<close>, or the
  field does not validate as a list of routes, or it is a list of routes. The controller
  and the transport are a function from the number of requests sent so far to the outcome
  of the next one. The world records the number of requests sent, the delays passed to
  \<open>time.sleep\<close>, the commands run and the exceptions that the sync loop caught.
\<close>

datatype response_body =
  NotJson | JsonWithoutRoutes | JsonInvalidRoutes | JsonRoutes "RouteConfig list"

datatype http_outcome =
  Response int response_body | Timeout | ConnectionError | RequestException | OtherException

type_synonym network = "nat \<Rightarrow> http_outcome"

record world =
  requests :: nat
  sleeps :: "rat list"
  commands :: "command list"
  caught :: "py_exception list"

definition sleep :: "rat \<Rightarrow> world \<Rightarrow> world" where
  "sleep delay w = w\<lparr>sleeps := sleeps w @ [delay]\<rparr>"

record ControllerClient =
  controller_url :: string
  timeout :: rat
  retry_attempts :: int
  retry_backoff :: "rat list"

definition rstrip_slash :: "string \<Rightarrow> string" where
  \<comment> \<open>\<open>s.rstrip('/')\<close>\<close>
  "rstrip_slash s = rev (dropWhile (\<lambda>c. c = CHR ''/'') (rev s))"

definition ControllerClient_init :: "string \<Rightarrow> rat \<Rightarrow> int \<Rightarrow> rat list \<Rightarrow> ControllerClient" where
  \<comment> \<open>an empty (or absent) backoff list is replaced by the default\<close>
  "ControllerClient_init url tmo attempts backoff =
     \<lparr>controller_url = rstrip_slash url, timeout = tmo, retry_attempts = attempts,
      retry_backoff = (if backoff = [] then [1, 2, 4] else backoff)\<rparr>"

fun retry_loop ::
  "ControllerClient \<Rightarrow> (world \<Rightarrow> 'a option \<times> world) \<Rightarrow> nat list \<Rightarrow> world
     \<Rightarrow> (py_exception + 'a) \<times> world" where
  "retry_loop cl operation [] w = (Inl RetryExhausted, w)"
| "retry_loop cl operation (attempt # rest) w =
     (case operation w of
        (Some result, w1) \<Rightarrow> (Inr result, w1)
      | (None, w1) \<Rightarrow>
          if int attempt < retry_attempts cl - 1 then
            (if retry_backoff cl = [] then (Inl IndexError, w1)
             else retry_loop cl operation rest
                    (sleep (retry_backoff cl ! min attempt (length (retry_backoff cl) - 1)) w1))
          else retry_loop cl operation rest w1)"

definition retry_with_backoff ::
  "ControllerClient \<Rightarrow> (world \<Rightarrow> 'a option \<times> world) \<Rightarrow> world \<Rightarrow> (py_exception + 'a) \<times> world" where
  \<comment> \<open>\<open>for attempt in range(self.retry_attempts)\<close>; the operations below raise nothing\<close>
  "retry_with_backoff cl operation w = retry_loop cl operation [0..<nat (retry_attempts cl)] w"

definition send_telemetry_result :: "http_outcome \<Rightarrow> bool" where
  \<comment> \<open>what \<open>send_telemetry\<close> returns for an outcome of \<open>requests.post\<close>\<close>
  "send_telemetry_result outcome =
     (case outcome of
        Response status body \<Rightarrow> (if status = 200 then True else False)
      | Timeout \<Rightarrow> False
      | ConnectionError \<Rightarrow> False
      | RequestException \<Rightarrow> False
      | OtherException \<Rightarrow> False)"

definition send_telemetry :: "network \<Rightarrow> world \<Rightarrow> bool \<times> world" where
  "send_telemetry net w =
     (send_telemetry_result (net (requests w)), w\<lparr>requests := requests w + 1\<rparr>)"

definition fetch_routes_result :: "http_outcome \<Rightarrow> RouteConfig list option" where
  \<comment> \<open>what \<open>fetch_routes\<close> returns for an outcome of \<open>requests.get\<close>\<close>
  "fetch_routes_result outcome =
     (case outcome of
        Response status body \<Rightarrow>
          (if status = 200 then
             (case body of
                NotJson \<Rightarrow> None
              | JsonWithoutRoutes \<Rightarrow> None
              | JsonInvalidRoutes \<Rightarrow> None
              | JsonRoutes routes \<Rightarrow> Some routes)
           else if status = 404 then None
           else None)
      | Timeout \<Rightarrow> None
      | ConnectionError \<Rightarrow> None
      | RequestException \<Rightarrow> None
      | OtherException \<Rightarrow> None)"

definition fetch_routes :: "network \<Rightarrow> world \<Rightarrow> RouteConfig list option \<times> world" where
  "fetch_routes net w =
     (fetch_routes_result (net (requests w)), w\<lparr>requests := requests w + 1\<rparr>)"

definition backoff_delay :: "ControllerClient \<Rightarrow> nat \<Rightarrow> rat" where
  \<comment> \<open>\<open>self.retry_backoff[min(attempt, len(self.retry_backoff) - 1)]\<close> on a non-empty list\<close>
  "backoff_delay cl attempt = retry_backoff cl ! min attempt (length (retry_backoff cl) - 1)"

definition send_telemetry_with_retry ::
  "network \<Rightarrow> ControllerClient \<Rightarrow> world \<Rightarrow> (py_exception + bool) \<times> world" where
  "send_telemetry_with_retry net cl w =
     (case retry_with_backoff cl
             (\<lambda>w. case send_telemetry net w of (success, w') \<Rightarrow>
                     (if success then Some True else None, w')) w of
        (Inr result, w') \<Rightarrow> (Inr result, w')
      | (Inl e, w') \<Rightarrow> (if e = RetryExhausted then Inr False else Inl e, w'))"

definition fetch_routes_with_retry ::
  "network \<Rightarrow> ControllerClient \<Rightarrow> world \<Rightarrow> (py_exception + RouteConfig list option) \<times> world" where
  "fetch_routes_with_retry net cl w =
     (case retry_with_backoff cl (fetch_routes net) w of
        (Inr result, w') \<Rightarrow> (Inr (Some result), w')
      | (Inl e, w') \<Rightarrow> (if e = RetryExhausted then Inr None else Inl e, w'))"

section \<open>The prober (agent/prober.py)\<close>

text \<open>
  In the prober a Python \<open>float\<close> that is a number is modelled by the rational it denotes:
  rounding is left out here (the solver below rounds). The values that occur in the scenarios
  of the prober (0, 1, 50 and 0.3) come out the same in binary floating point.
\<close>

record Metric =
  target_ip :: string
  rtt_ms :: "rat option"
  loss_rate :: rat

definition Metric_init :: "string \<Rightarrow> rat option \<Rightarrow> rat \<Rightarrow> py_exception + Metric" where
  \<comment> \<open>the field constraints \<open>ge=0.0, le=1.0\<close> and the validator of \<open>rtt_ms\<close> (models.py)\<close>
  "Metric_init target rtt loss_val =
     (if (case rtt of Some v \<Rightarrow> v < 0 | None \<Rightarrow> False) then Inl ValidationError
      else if \<not> (0 \<le> loss_val \<and> loss_val \<le> 1) then Inl ValidationError
      else Inr \<lparr>target_ip = target, rtt_ms = rtt, loss_rate = loss_val\<rparr>)"

record SlidingWindowBuffer =
  maxlen :: int
  buffer :: "rat list"

definition SlidingWindowBuffer_init :: "int \<Rightarrow> py_exception + SlidingWindowBuffer" where
  "SlidingWindowBuffer_init n =
     (if n \<le> 0 then Inl ValueError else Inr \<lparr>maxlen = n, buffer = []\<rparr>)"

definition swb_append :: "SlidingWindowBuffer \<Rightarrow> rat \<Rightarrow> SlidingWindowBuffer" where
  \<comment> \<open>\<open>deque.append\<close> with \<open>maxlen\<close>: a full deque drops its oldest entry\<close>
  "swb_append b v =
     (if int (length (buffer b)) = maxlen b then b\<lparr>buffer := tl (buffer b) @ [v]\<rparr>
      else b\<lparr>buffer := buffer b @ [v]\<rparr>)"

definition get_moving_average :: "SlidingWindowBuffer \<Rightarrow> rat option" where
  "get_moving_average b =
     (if buffer b = [] then None
      else Some (sum_list (buffer b) / of_nat (length (buffer b))))"

record peer_buffers =
  rtt :: SlidingWindowBuffer
  loss :: SlidingWindowBuffer

record Prober =
  peer_ips :: "string list"
  interval :: rat
  ping_timeout :: rat
  window_size :: int
  buffers :: "peer_buffers pydict"

definition Prober_init :: "string list \<Rightarrow> rat \<Rightarrow> rat \<Rightarrow> int \<Rightarrow> py_exception + Prober" where
  \<comment> \<open>two buffers per peer; the buffer constructor raises for a window that is not positive\<close>
  "Prober_init peers iv tmo w =
     (if peers = [] then
        Inr \<lparr>peer_ips = peers, interval = iv, ping_timeout = tmo, window_size = w, buffers = []\<rparr>
      else
        (case SlidingWindowBuffer_init w of
           Inl e \<Rightarrow> Inl e
         | Inr fresh \<Rightarrow>
             Inr \<lparr>peer_ips = peers, interval = iv, ping_timeout = tmo, window_size = w,
                  buffers = foldl (\<lambda>d ip. AList.update ip \<lparr>rtt = fresh, loss = fresh\<rparr> d) [] peers\<rparr>))"

text \<open>
  \<open>ping3.ping\<close> returns the round-trip time in seconds, or \<open>None\<close> on a timeout, or \<open>False\<close>
  on an error (a host name that does not resolve, a destination that is unreachable), or
  raises. During one probe cycle the network is a function from the target to the outcome.
\<close>

datatype ping_outcome = Reply rat | NoReply | ErrorReturn | PingRaised

type_synonym pinger = "string \<Rightarrow> ping_outcome"

record probe_result =
  target :: string
  result_rtt_ms :: "rat option"
  result_loss :: rat

definition probe_once :: "pinger \<Rightarrow> string \<Rightarrow> probe_result" where
  "probe_once ping ip =
     (case ping ip of
        NoReply \<Rightarrow> \<lparr>target = ip, result_rtt_ms = None, result_loss = 1\<rparr>
      | Reply rtt_seconds \<Rightarrow>
          \<lparr>target = ip, result_rtt_ms = Some (rtt_seconds * 1000), result_loss = 0\<rparr>
      | ErrorReturn \<Rightarrow>
          \<comment> \<open>\<open>False\<close> is not \<open>None\<close>: the else branch, where \<open>False * 1000\<close> is 0\<close>
          \<lparr>target = ip, result_rtt_ms = Some 0, result_loss = 0\<rparr>
      | PingRaised \<Rightarrow> \<lparr>target = ip, result_rtt_ms = None, result_loss = 1\<rparr>)"

definition record_result :: "peer_buffers \<Rightarrow> probe_result \<Rightarrow> peer_buffers" where
  \<comment> \<open>the two buffer updates of \<open>probe_all\<close>\<close>
  "record_result pb res =
     (let pb1 = (case result_rtt_ms res of
                   Some v \<Rightarrow> pb\<lparr>rtt := swb_append (rtt pb) v\<rparr>
                 | None \<Rightarrow> pb)
      in pb1\<lparr>loss := swb_append (loss pb1) (result_loss res)\<rparr>)"

fun probe_peers ::
  "pinger \<Rightarrow> string list \<Rightarrow> probe_result list \<Rightarrow> Prober
     \<Rightarrow> py_exception + (probe_result list \<times> Prober)" where
  "probe_peers ping [] results pr = Inr (results, pr)"
| "probe_peers ping (peer_ip # rest) results pr =
     (let res = probe_once ping peer_ip in
      case map_of (buffers pr) peer_ip of
        None \<Rightarrow> Inl KeyError
      | Some pb \<Rightarrow>
          probe_peers ping rest (results @ [res])
            (pr\<lparr>buffers := AList.update peer_ip (record_result pb res) (buffers pr)\<rparr>))"

definition probe_all :: "pinger \<Rightarrow> Prober \<Rightarrow> py_exception + (probe_result list \<times> Prober)" where
  "probe_all ping pr = probe_peers ping (peer_ips pr) [] pr"

fun smoothed_from :: "Prober \<Rightarrow> string list \<Rightarrow> Metric list \<Rightarrow> py_exception + Metric list" where
  "smoothed_from pr [] metrics = Inr metrics"
| "smoothed_from pr (peer_ip # rest) metrics =
     (case map_of (buffers pr) peer_ip of
        None \<Rightarrow> Inl KeyError
      | Some pb \<Rightarrow>
          (let avg_rtt = get_moving_average (rtt pb);
               avg_loss = (case get_moving_average (loss pb) of None \<Rightarrow> 0 | Some l \<Rightarrow> l)
           in case Metric_init peer_ip avg_rtt avg_loss of
                Inl e \<Rightarrow> Inl e
              | Inr metric \<Rightarrow> smoothed_from pr rest (metrics @ [metric])))"

definition get_smoothed_metrics :: "Prober \<Rightarrow> py_exception + Metric list" where
  "get_smoothed_metrics pr = smoothed_from pr (peer_ips pr) []"

definition run_once :: "pinger \<Rightarrow> Prober \<Rightarrow> py_exception + (Metric list \<times> Prober)" where
  "run_once ping pr =
     (case probe_all ping pr of
        Inl e \<Rightarrow> Inl e
      | Inr (results, pr') \<Rightarrow>
          (case get_smoothed_metrics pr' of
             Inl e \<Rightarrow> Inl e
           | Inr metrics \<Rightarrow> Inr (metrics, pr')))"

fun probe_cycles :: "pinger list \<Rightarrow> Prober \<Rightarrow> py_exception + Prober" where
  \<comment> \<open>one \<open>probe_all\<close> per element, in order\<close>
  "probe_cycles [] pr = Inr pr"
| "probe_cycles (ping # pings) pr =
     (case probe_all ping pr of
        Inl e \<Rightarrow> Inl e
      | Inr (results, pr') \<Rightarrow> probe_cycles pings pr')"

section \<open>The agent's sync loop (agent/main.py)\<close>

record Agent =
  agent_id :: string
  sync_interval :: rat
  latest_metrics :: "Metric list option"
  in_fallback_mode :: bool
  executor :: Executor
  client :: ControllerClient

definition enter_fallback_mode :: "shell \<Rightarrow> Agent \<Rightarrow> world \<Rightarrow> Agent \<times> world" where
  "enter_fallback_mode sh ag w =
     (if \<not> in_fallback_mode ag then
        (case flush_all_routes sh (executor ag) (commands w) of
           (ok, ex', tr') \<Rightarrow>
             (ag\<lparr>in_fallback_mode := True, executor := ex'\<rparr>, w\<lparr>commands := tr'\<rparr>))
      else (ag, w))"

definition exit_fallback_mode :: "Agent \<Rightarrow> Agent" where
  "exit_fallback_mode ag = (if in_fallback_mode ag then ag\<lparr>in_fallback_mode := False\<rparr> else ag)"

definition on_exception :: "py_exception \<Rightarrow> Agent \<Rightarrow> world \<Rightarrow> Agent \<times> world" where
  \<comment> \<open>the handler \<open>except Exception\<close> of the loop body: log, then sleep\<close>
  "on_exception e ag w = (ag, sleep (sync_interval ag) (w\<lparr>caught := caught w @ [e]\<rparr>))"

definition executor_loop_iteration ::
  "network \<Rightarrow> shell \<Rightarrow> int \<Rightarrow> Agent \<Rightarrow> world \<Rightarrow> Agent \<times> world" where
  \<comment> \<open>one round of the \<open>while\<close> loop of \<open>_executor_loop\<close>; \<open>now\<close> is the wall clock in seconds.
      A call \<open>self.executor.m(...)\<close> finds \<open>m\<close> among the methods of class Executor or raises
      AttributeError.\<close>
  "executor_loop_iteration net sh now ag w =
     (case latest_metrics ag of
        None \<Rightarrow> (ag, sleep (sync_interval ag) w)
      | Some metrics \<Rightarrow>
          if \<not> (now > 0 \<and> metrics \<noteq> []) then on_exception ValidationError ag w
          else
            (case send_telemetry_with_retry net (client ag) w of
               (Inl e, w1) \<Rightarrow> on_exception e ag w1
             | (Inr success, w1) \<Rightarrow>
                 if \<not> success then
                   (case enter_fallback_mode sh ag w1 of
                      (ag1, w2) \<Rightarrow> (ag1, sleep (sync_interval ag1) w2))
                 else
                   (let ag1 = (if in_fallback_mode ag then exit_fallback_mode ag else ag) in
                    case fetch_routes_with_retry net (client ag1) w1 of
                      (Inl e, w2) \<Rightarrow> on_exception e ag1 w2
                    | (Inr None, w2) \<Rightarrow>
                        (case enter_fallback_mode sh ag1 w2 of
                           (ag2, w3) \<Rightarrow> (ag2, sleep (sync_interval ag2) w3))
                    | (Inr (Some routes), w2) \<Rightarrow>
                        if ''sync_routes'' \<in> set Executor_methods then
                          (case sync_statements sh (executor ag1) (commands w2) routes of
                             (ok, ex', tr') \<Rightarrow>
                               (ag1\<lparr>executor := ex'\<rparr>,
                                sleep (sync_interval ag1) (w2\<lparr>commands := tr'\<rparr>)))
                        else on_exception AttributeError ag1 w2)))"

section \<open>The route solver (controller/solver.py)\<close>

text \<open>
  A \<open>float\<close> is an IEEE 754 binary64 number: a rational number that the format represents,
  an infinity or not-a-number. Every arithmetic operation rounds its exact result to the
  nearest representable number, ties to the even significand, and overflows to an
  infinity; infinity times zero is not-a-number, and every comparison with not-a-number
  is false. The sign of a zero is not modelled: no operation below tells the two zeros
  apart. A Python \<open>int\<close> that meets a float in an operation is the float it converts to.
\<close>

datatype pyfloat = Fin rat | PInf | NInf | NaN

definition ilog2 :: "rat \<Rightarrow> int" where
  \<comment> \<open>for a positive \<open>a\<close>, the exponent \<open>e\<close> with \<open>2 ^ e \<le> a < 2 ^ (e + 1)\<close>\<close>
  "ilog2 a =
     (case quotient_of a of
        (p, q) \<Rightarrow> (let e0 = bitlen p - bitlen q in if 2 powi e0 \<le> a then e0 else e0 - 1))"

definition round_half_even :: "rat \<Rightarrow> int" where
  "round_half_even q =
     (let n = \<lfloor>q\<rfloor>; r = q - of_int n
      in if r < 1 / 2 then n else if r > 1 / 2 then n + 1 else if even n then n else n + 1)"

definition round_double :: "rat \<Rightarrow> pyfloat" where
  \<comment> \<open>round to nearest binary64: 53 significant bits, least exponent -1022 (below it the
      numbers are subnormal, spaced \<open>2 ^ -1074\<close> apart), overflow from \<open>2 ^ 1024\<close> on\<close>
  "round_double x =
     (if x = 0 then Fin 0
      else
        (let a = \<bar>x\<bar>;
             e = max (ilog2 a) (- 1022);
             ulp = 2 powi (e - 52);
             y = of_int (round_half_even (a / ulp)) * ulp
         in if y \<ge> 2 powi 1024 then (if x > 0 then PInf else NInf)
            else Fin (if x > 0 then y else - y)))"

fun fl_neg :: "pyfloat \<Rightarrow> pyfloat" where
  "fl_neg (Fin a) = Fin (- a)"
| "fl_neg PInf = NInf"
| "fl_neg NInf = PInf"
| "fl_neg NaN = NaN"

fun fl_add :: "pyfloat \<Rightarrow> pyfloat \<Rightarrow> pyfloat" where
  "fl_add (Fin a) (Fin b) = round_double (a + b)"
| "fl_add NaN y = NaN"
| "fl_add x NaN = NaN"
| "fl_add PInf NInf = NaN"
| "fl_add NInf PInf = NaN"
| "fl_add PInf y = PInf"
| "fl_add NInf y = NInf"
| "fl_add (Fin a) PInf = PInf"
| "fl_add (Fin a) NInf = NInf"

definition fl_sub :: "pyfloat \<Rightarrow> pyfloat \<Rightarrow> pyfloat" where
  "fl_sub x y = fl_add x (fl_neg y)"

fun fl_mul :: "pyfloat \<Rightarrow> pyfloat \<Rightarrow> pyfloat" where
  "fl_mul (Fin a) (Fin b) = round_double (a * b)"
| "fl_mul NaN y = NaN"
| "fl_mul x NaN = NaN"
| "fl_mul PInf (Fin b) = (if b > 0 then PInf else if b < 0 then NInf else NaN)"
| "fl_mul NInf (Fin b) = (if b > 0 then NInf else if b < 0 then PInf else NaN)"
| "fl_mul (Fin a) PInf = (if a > 0 then PInf else if a < 0 then NInf else NaN)"
| "fl_mul (Fin a) NInf = (if a > 0 then NInf else if a < 0 then PInf else NaN)"
| "fl_mul PInf PInf = PInf"
| "fl_mul PInf NInf = NInf"
| "fl_mul NInf PInf = NInf"
| "fl_mul NInf NInf = PInf"

fun fl_less :: "pyfloat \<Rightarrow> pyfloat \<Rightarrow> bool" where
  "fl_less (Fin a) (Fin b) = (a < b)"
| "fl_less NaN y = False"
| "fl_less x NaN = False"
| "fl_less x NInf = False"
| "fl_less PInf y = False"
| "fl_less NInf y = True"
| "fl_less (Fin a) PInf = True"

definition calculate_cost :: "pyfloat \<Rightarrow> pyfloat \<Rightarrow> pyfloat \<Rightarrow> pyfloat" where
  "calculate_cost latency_ms loss_val penalty = fl_add latency_ms (fl_mul loss_val penalty)"

record link_metric =
  link_rtt :: "pyfloat option"
  link_loss :: pyfloat

record topology_entry =
  timestamp :: int
  metrics :: "link_metric pydict"

type_synonym topology = "topology_entry pydict"

text \<open>
  A networkx \<open>DiGraph\<close>: the nodes in the order they were added, and the weight of every
  edge. Adding an edge adds its end points that are no nodes yet, and an edge added again
  gets the new weight.
\<close>

record digraph =
  nodes :: "string list"
  edges :: "((string \<times> string) \<times> pyfloat) list"

definition empty_graph :: digraph where
  "empty_graph = \<lparr>nodes = [], edges = []\<rparr>"

definition add_node :: "digraph \<Rightarrow> string \<Rightarrow> digraph" where
  "add_node G n = (if n \<in> set (nodes G) then G else G\<lparr>nodes := nodes G @ [n]\<rparr>)"

definition add_edge :: "digraph \<Rightarrow> string \<Rightarrow> string \<Rightarrow> pyfloat \<Rightarrow> digraph" where
  "add_edge G u v weight =
     (let G1 = add_node (add_node G u) v
      in G1\<lparr>edges := AList.update (u, v) weight (edges G1)\<rparr>)"

record RouteSolver =
  penalty_factor :: pyfloat
  hysteresis :: pyfloat
  previous_costs :: "((string \<times> string) \<times> pyfloat) list"

definition RouteSolver_init :: "pyfloat \<Rightarrow> pyfloat \<Rightarrow> RouteSolver" where
  "RouteSolver_init penalty hyst =
     \<lparr>penalty_factor = penalty, hysteresis = hyst, previous_costs = []\<rparr>"

definition add_metric_edge :: "RouteSolver \<Rightarrow> string \<Rightarrow> digraph \<Rightarrow> string \<times> link_metric \<Rightarrow> digraph" where
  "add_metric_edge solver source G item =
     (case item of
        (tgt, metric_data) \<Rightarrow>
          (let cost = (case link_rtt metric_data of
                         None \<Rightarrow> PInf
                       | Some r \<Rightarrow> calculate_cost r (link_loss metric_data) (penalty_factor solver))
           in add_edge G source tgt cost))"

definition build_graph :: "RouteSolver \<Rightarrow> topology \<Rightarrow> digraph" where
  "build_graph solver topology_data =
     (let G0 = foldl add_node empty_graph (map fst topology_data)
      in foldl (\<lambda>G (source, data). foldl (add_metric_edge solver source) G (metrics data))
           G0 topology_data)"

text \<open>
  \<open>nx.shortest_path\<close> and \<open>nx.shortest_path_length\<close> belong to the networkx library. They
  are parameters of the solver: each either raises NetworkXNoPath or NodeNotFound, or
  returns the path (a list of nodes) and the length of the path.
\<close>

datatype nx_error = NetworkXNoPath | NodeNotFound

type_synonym shortest_path_fn = "digraph \<Rightarrow> string \<Rightarrow> string \<Rightarrow> nx_error + string list"

type_synonym shortest_path_length_fn = "digraph \<Rightarrow> string \<Rightarrow> string \<Rightarrow> nx_error + pyfloat"

definition history_get :: "((string \<times> string) \<times> pyfloat) list \<Rightarrow> string \<times> string \<Rightarrow> pyfloat" where
  \<comment> \<open>\<open>self.previous_costs.get(cost_key, float('inf'))\<close>\<close>
  "history_get costs cost_key = (case map_of costs cost_key of None \<Rightarrow> PInf | Some c \<Rightarrow> c)"

datatype target_outcome =
  Skip | Emit RouteConfig | Raise py_exception

definition route_for_target ::
  "shortest_path_fn \<Rightarrow> shortest_path_length_fn \<Rightarrow> RouteSolver \<Rightarrow> digraph \<Rightarrow> string \<Rightarrow> string
     \<Rightarrow> target_outcome \<times> RouteSolver" where
  \<comment> \<open>the body of the loop over \<open>G.nodes()\<close>: \<open>Skip\<close> is \<open>continue\<close> (or the end of the body
      with nothing appended), \<open>Emit\<close> is \<open>routes.append\<close>\<close>
  "route_for_target sp spl solver G source_agent tgt =
     (if tgt = source_agent then (Skip, solver)
      else
        (case sp G source_agent tgt of
           Inl e \<Rightarrow> (Skip, solver)
         | Inr path \<Rightarrow>
             (case spl G source_agent tgt of
                Inl e \<Rightarrow> (Skip, solver)
              | Inr new_cost \<Rightarrow>
                  if new_cost = PInf then (Skip, solver)
                  else
                    (let cost_key = (source_agent, tgt);
                         old_cost = history_get (previous_costs solver) cost_key
                     in if fl_less new_cost (fl_mul old_cost (fl_sub (Fin 1) (hysteresis solver))) then
                          (let solver' = solver\<lparr>previous_costs :=
                                           AList.update cost_key new_cost (previous_costs solver)\<rparr>
                           in if length path = 1 then (Skip, solver')
                              else if length path = 2 then
                                (Emit \<lparr>dst_cidr = tgt @ ''/32'', next_hop = ''direct'',
                                       reason = ''default''\<rparr>, solver')
                              else if length path < 2 then (Raise IndexError, solver')
                              else
                                (Emit \<lparr>dst_cidr = tgt @ ''/32'', next_hop = path ! 1,
                                       reason = ''optimized_path''\<rparr>, solver'))
                        else (Skip, solver)))))"

fun routes_loop ::
  "shortest_path_fn \<Rightarrow> shortest_path_length_fn \<Rightarrow> digraph \<Rightarrow> string \<Rightarrow> string list
     \<Rightarrow> RouteConfig list \<Rightarrow> RouteSolver \<Rightarrow> (py_exception + RouteConfig list) \<times> RouteSolver" where
  "routes_loop sp spl G source_agent [] routes solver = (Inr routes, solver)"
| "routes_loop sp spl G source_agent (tgt # rest) routes solver =
     (case route_for_target sp spl solver G source_agent tgt of
        (Skip, solver') \<Rightarrow> routes_loop sp spl G source_agent rest routes solver'
      | (Emit r, solver') \<Rightarrow> routes_loop sp spl G source_agent rest (routes @ [r]) solver'
      | (Raise e, solver') \<Rightarrow> (Inl e, solver'))"

definition compute_routes_for ::
  "shortest_path_fn \<Rightarrow> shortest_path_length_fn \<Rightarrow> RouteSolver \<Rightarrow> string \<Rightarrow> topology
     \<Rightarrow> (py_exception + RouteConfig list) \<times> RouteSolver" where
  "compute_routes_for sp spl solver source_agent topology_data =
     (let G = build_graph solver topology_data in
      if source_agent \<notin> set (nodes G) then (Inr [], solver)
      else routes_loop sp spl G source_agent (nodes G) [] solver)"

section \<open>Notions used in the properties\<close>

definition last_n :: "nat \<Rightarrow> 'a list \<Rightarrow> 'a list" where
  \<comment> \<open>the last \<open>n\<close> elements (all of them when there are fewer)\<close>
  "last_n n xs = drop (length xs - n) xs"

definition loss_sample :: "ping_outcome \<Rightarrow> rat" where
  \<comment> \<open>what one probe with this outcome appends to the loss buffer\<close>
  "loss_sample outcome =
     (case outcome of Reply s \<Rightarrow> 0 | NoReply \<Rightarrow> 1 | ErrorReturn \<Rightarrow> 0 | PingRaised \<Rightarrow> 1)"

definition rtt_samples :: "ping_outcome \<Rightarrow> rat list" where
  \<comment> \<open>what one probe with this outcome appends to the RTT buffer\<close>
  "rtt_samples outcome =
     (case outcome of
        Reply s \<Rightarrow> [s * 1000] | NoReply \<Rightarrow> [] | ErrorReturn \<Rightarrow> [0] | PingRaised \<Rightarrow> [])"

definition nonneg_replies :: "pinger \<Rightarrow> bool" where
  \<comment> \<open>a round-trip time is not negative\<close>
  "nonneg_replies ping \<longleftrightarrow> (\<forall>p s. ping p = Reply s \<longrightarrow> 0 \<le> s)"

definition tracks :: "nat \<Rightarrow> rat list \<Rightarrow> rat list \<Rightarrow> peer_buffers \<Rightarrow> bool" where
  \<comment> \<open>the two buffers hold the last \<open>W\<close> of the RTT samples \<open>R\<close> and of the loss samples \<open>L\<close>\<close>
  "tracks W R L pb \<longleftrightarrow>
     maxlen (rtt pb) = int W \<and> maxlen (loss pb) = int W
     \<and> buffer (rtt pb) = last_n W R \<and> buffer (loss pb) = last_n W L"

definition sane :: "peer_buffers \<Rightarrow> bool" where
  "sane pb \<longleftrightarrow>
     (\<forall>x\<in>set (buffer (loss pb)). 0 \<le> x \<and> x \<le> 1) \<and> (\<forall>x\<in>set (buffer (rtt pb)). 0 \<le> x)"

definition path_endpoints :: "shortest_path_fn \<Rightarrow> bool" where
  \<comment> \<open>what networkx promises of a returned path: it leads from the source to the target\<close>
  "path_endpoints sp \<longleftrightarrow> (\<forall>G s t p. sp G s t = Inr p \<longrightarrow> p \<noteq> [] \<and> hd p = s \<and> last p = t)"

definition emitted :: "target_outcome \<Rightarrow> RouteConfig list" where
  \<comment> \<open>what one round of the loop appends to \<open>routes\<close>\<close>
  "emitted out = (case out of Emit r \<Rightarrow> [r] | Skip \<Rightarrow> [] | Raise e \<Rightarrow> [])"

section \<open>Concrete inputs\<close>

definition overlay_executor :: Executor where
  \<comment> \<open>the default configuration: interface wg0, allowed subnet 10.254.0.0/24\<close>
  "overlay_executor = Executor_init ''wg0'' \<lparr>network_address = 184418304, prefixlen = 24\<rparr>"

definition shell_permission_denied :: shell where
  \<comment> \<open>a system on which every command exits with status 2 and a permission error\<close>
  "shell_permission_denied tr command =
     Exited 2 [] ''RTNETLINK answers: Operation not permitted''"

definition desired_example :: "string pydict" where
  "desired_example =
     [(''10.254.0.3'', ''10.254.0.2''), (''10.254.0.4'', ''direct''), (''10.254.0.5'', ''10.254.0.2'')]"

definition current_example :: "string pydict" where
  "current_example =
     [(''10.254.0.4'', ''direct''), (''10.254.0.5'', ''10.254.0.9''), (''10.254.0.6'', ''10.254.0.2'')]"

definition overlay_client :: ControllerClient where
  "overlay_client = ControllerClient_init ''http://10.254.0.1:8000/'' 5 3 [1, 2, 4]"

definition world0 :: world where
  "world0 = \<lparr>requests = 0, sleeps = [], commands = [], caught = []\<rparr>"

definition net_timeout_then_empty :: network where
  \<comment> \<open>the first request times out, every later one is answered 200 with an empty route list\<close>
  "net_timeout_then_empty n = (if n = 0 then Timeout else Response 200 (JsonRoutes []))"

definition net_unknown_agent :: network where
  \<comment> \<open>the telemetry POST is accepted, every later request is answered 404\<close>
  "net_unknown_agent n = (if n = 0 then Response 200 NotJson else Response 404 NotJson)"

definition relay_route :: RouteConfig where
  "relay_route = \<lparr>dst_cidr = ''10.254.0.3/32'', next_hop = ''10.254.0.2'', reason = ''optimized_path''\<rparr>"

definition net_one_route :: network where
  \<comment> \<open>the telemetry POST is accepted and the fetch is answered with one relay route\<close>
  "net_one_route n = (if n = 0 then Response 200 NotJson else Response 200 (JsonRoutes [relay_route]))"

definition shell_empty_table :: shell where
  \<comment> \<open>every command exits with status 0 and prints nothing: the kernel table is empty\<close>
  "shell_empty_table tr command = Exited 0 [] []"

definition agent0 :: Agent where
  "agent0 = \<lparr>agent_id = ''10.254.0.1'', sync_interval = 10,
              latest_metrics = Some [\<lparr>target_ip = ''10.254.0.2'', rtt_ms = Some 35, loss_rate = 0\<rparr>],
              in_fallback_mode = False, executor = overlay_executor, client = overlay_client\<rparr>"

definition unlines :: "string list \<Rightarrow> string" where
  "unlines ls = concat (map (\<lambda>l. l @ [CHR 0x0A]) ls)"

definition listing_two_interfaces :: string where
  \<comment> \<open>a listing of table main on a host with the overlay interface wg0 and a second
      interface wg01\<close>
  "listing_two_interfaces = unlines
     [''10.254.0.3 via 10.254.0.2 dev wg0'',
      ''10.254.0.4 dev wg0 scope link'',
      ''10.254.0.0/24 dev wg0 proto kernel scope link src 10.254.0.1'',
      ''192.168.1.0/24 dev eth0 proto kernel scope link src 192.168.1.10'',
      ''10.254.0.9 dev wg01 scope link'']"

definition shell_two_interfaces :: shell where
  "shell_two_interfaces tr command = Exited 0 listing_two_interfaces []"

definition ping_ok :: pinger where
  \<comment> \<open>every target answers after 50 ms\<close>
  "ping_ok ip = Reply (1 / 20)"

definition ping_lost :: pinger where
  \<comment> \<open>every probe times out\<close>
  "ping_lost ip = NoReply"

definition ping_error :: pinger where
  \<comment> \<open>every probe ends in an error that \<open>ping3.ping\<close> reports by returning \<open>False\<close>\<close>
  "ping_error ip = ErrorReturn"

definition prober_fresh :: Prober where
  \<comment> \<open>\<open>Prober(peer_ips=["10.254.0.2"], interval=5, timeout=2.0, window_size=10)\<close>\<close>
  "prober_fresh =
     \<lparr>peer_ips = [''10.254.0.2''], interval = 5, ping_timeout = 2, window_size = 10,
      buffers = [(''10.254.0.2'',
                  \<lparr>rtt = \<lparr>maxlen = 10, buffer = []\<rparr>, loss = \<lparr>maxlen = 10, buffer = []\<rparr>\<rparr>)]\<rparr>"

definition prober_after_errors :: Prober where
  \<comment> \<open>that prober with ten zeros in each buffer\<close>
  "prober_after_errors =
     \<lparr>peer_ips = [''10.254.0.2''], interval = 5, ping_timeout = 2, window_size = 10,
      buffers = [(''10.254.0.2'',
                  \<lparr>rtt = \<lparr>maxlen = 10, buffer = [0, 0, 0, 0, 0, 0, 0, 0, 0, 0]\<rparr>,
                   loss = \<lparr>maxlen = 10, buffer = [0, 0, 0, 0, 0, 0, 0, 0, 0, 0]\<rparr>\<rparr>)]\<rparr>"

definition pings_example :: "pinger list" where
  \<comment> \<open>ten probe cycles: seven answered, three timed out\<close>
  "pings_example =
     [ping_ok, ping_ok, ping_lost, ping_ok, ping_ok, ping_lost, ping_ok, ping_lost, ping_ok, ping_ok]"

definition topology_relay :: topology where
  \<comment> \<open>10.254.0.1 reaches 10.254.0.2 at RTT 200 with loss 0.1 and 10.254.0.3 at RTT 30;
      10.254.0.3 reaches 10.254.0.2 at RTT 30\<close>
  "topology_relay =
     [(''10.254.0.1'',
       \<lparr>timestamp = 1703830000,
        metrics = [(''10.254.0.2'', \<lparr>link_rtt = Some (Fin 200), link_loss = round_double (1 / 10)\<rparr>),
                   (''10.254.0.3'', \<lparr>link_rtt = Some (Fin 30), link_loss = Fin 0\<rparr>)]\<rparr>),
      (''10.254.0.3'',
       \<lparr>timestamp = 1703830001,
        metrics = [(''10.254.0.2'', \<lparr>link_rtt = Some (Fin 30), link_loss = Fin 0\<rparr>)]\<rparr>)]"

definition nx_path_relay :: shortest_path_fn where
  \<comment> \<open>the shortest paths of the graph of \<open>topology_relay\<close>\<close>
  "nx_path_relay G s t =
     (if s = t then Inr [s]
      else if (s, t) = (''10.254.0.1'', ''10.254.0.2'')
        then Inr [''10.254.0.1'', ''10.254.0.3'', ''10.254.0.2'']
      else if (s, t) = (''10.254.0.1'', ''10.254.0.3'') then Inr [''10.254.0.1'', ''10.254.0.3'']
      else if (s, t) = (''10.254.0.3'', ''10.254.0.2'') then Inr [''10.254.0.3'', ''10.254.0.2'']
      else Inl NetworkXNoPath)"

definition nx_length_relay :: shortest_path_length_fn where
  \<comment> \<open>their lengths: 30 + 30, 30 and 30\<close>
  "nx_length_relay G s t =
     (if s = t then Inr (Fin 0)
      else if (s, t) = (''10.254.0.1'', ''10.254.0.2'') then Inr (Fin 60)
      else if (s, t) = (''10.254.0.1'', ''10.254.0.3'') then Inr (Fin 30)
      else if (s, t) = (''10.254.0.3'', ''10.254.0.2'') then Inr (Fin 30)
      else Inl NetworkXNoPath)"

definition solver_default :: RouteSolver where
  \<comment> \<open>\<open>RouteSolver(penalty_factor=100, hysteresis=0.15)\<close>\<close>
  "solver_default = RouteSolver_init (Fin 100) (round_double (15 / 100))"









section \<open>The difference of two tables is exact\<close>

lemma update_fresh: "k \<notin> fst ` set al \<Longrightarrow> AList.update k v al = al @ [(k, v)]"
  by (induction al) auto

lemma diff_fold:
  "distinct (map fst xs) \<Longrightarrow> fst ` set xs \<inter> fst ` set A = {} \<Longrightarrow>
   fst ` set xs \<inter> fst ` set M = {} \<Longrightarrow>
   foldl (diff_desired_step current) (A, M) xs =
     (A @ filter (\<lambda>(k, v). map_of current k = None) xs,
      M @ filter (\<lambda>(k, v). \<exists>c. map_of current k = Some c \<and> c \<noteq> v) xs)"
proof (induction xs arbitrary: A M)
  case Nil
  then show ?case by simp
next
  case (Cons x xs)
  obtain k v where x: "x = (k, v)" by (cases x)
  from Cons.prems have kA: "k \<notin> fst ` set A" and kM: "k \<notin> fst ` set M"
    and kxs: "k \<notin> fst ` set xs" and dxs: "distinct (map fst xs)"
    and dA: "fst ` set xs \<inter> fst ` set A = {}" and dM: "fst ` set xs \<inter> fst ` set M = {}"
    by (auto simp: x)
  show ?case
  proof (cases "map_of current k")
    case None
    have "fst ` set xs \<inter> fst ` set (A @ [(k, v)]) = {}" using dA kxs by auto
    from Cons.IH[OF dxs this dM] show ?thesis
      by (simp add: x diff_desired_step_def None update_fresh[OF kA])
  next
    case (Some c)
    show ?thesis
    proof (cases "c = v")
      case True
      from Cons.IH[OF dxs dA dM] show ?thesis
        by (simp add: x diff_desired_step_def Some True)
    next
      case False
      have "fst ` set xs \<inter> fst ` set (M @ [(k, v)]) = {}" using dM kxs by auto
      from Cons.IH[OF dxs dA this] show ?thesis
        by (simp add: x diff_desired_step_def Some False update_fresh[OF kM])
    qed
  qed
qed

lemma calculate_route_diff_lists:
  assumes "distinct (map fst desired)"
  shows "calculate_route_diff desired current =
     (filter (\<lambda>(k, v). map_of current k = None) desired,
      filter (\<lambda>(k, v). \<exists>c. map_of current k = Some c \<and> c \<noteq> v) desired,
      filter (\<lambda>k. map_of desired k = None) (map fst current))"
  using diff_fold[OF assms, of "[]" "[]" current]
  by (simp add: calculate_route_diff_def)

text \<open>
  C7. For dicts \<open>desired\<close> and \<open>current\<close> (the keys of a dict are distinct),
  \<open>calculate_route_diff\<close> returns as ADD exactly the keys of \<open>desired\<close> that \<open>current\<close> lacks,
  as MODIFY exactly the keys of both whose next hops differ, and as DELETE exactly the
  keys of \<open>current\<close> that \<open>desired\<close> lacks; ADD and MODIFY carry the next hop of \<open>desired\<close>;
  the three key sets are pairwise disjoint.
\<close>

theorem calculate_route_diff_exact:
  assumes "distinct (map fst desired)"
    and "calculate_route_diff desired current = (to_add, to_modify, to_delete)"
  shows "fst ` set to_add = {k. map_of desired k \<noteq> None \<and> map_of current k = None}
       \<and> fst ` set to_modify =
           {k. \<exists>v c. map_of desired k = Some v \<and> map_of current k = Some c \<and> c \<noteq> v}
       \<and> set to_delete = {k. map_of current k \<noteq> None \<and> map_of desired k = None}
       \<and> (\<forall>k v. (k, v) \<in> set to_add \<union> set to_modify \<longrightarrow> map_of desired k = Some v)
       \<and> fst ` set to_add \<inter> fst ` set to_modify = {}
       \<and> fst ` set to_add \<inter> set to_delete = {}
       \<and> fst ` set to_modify \<inter> set to_delete = {}"
proof -
  from assms(2) calculate_route_diff_lists[OF assms(1), of current]
  have A: "to_add = filter (\<lambda>(k, v). map_of current k = None) desired"
    and M: "to_modify = filter (\<lambda>(k, v). \<exists>c. map_of current k = Some c \<and> c \<noteq> v) desired"
    and D: "to_delete = filter (\<lambda>k. map_of desired k = None) (map fst current)"
    by simp_all
  have mem: "\<And>k v. (k, v) \<in> set desired \<longleftrightarrow> map_of desired k = Some v"
    using assms(1) by (auto intro: map_of_is_SomeI dest: map_of_SomeD)
  have c1: "fst ` set to_add = {k. map_of desired k \<noteq> None \<and> map_of current k = None}"
    unfolding A by (force simp: mem image_iff)
  have c2: "fst ` set to_modify =
           {k. \<exists>v c. map_of desired k = Some v \<and> map_of current k = Some c \<and> c \<noteq> v}"
    unfolding M by (force simp: mem image_iff)
  have c3: "set to_delete = {k. map_of current k \<noteq> None \<and> map_of desired k = None}"
    unfolding D by (auto simp: map_of_eq_None_iff)
  have c4: "\<forall>k v. (k, v) \<in> set to_add \<union> set to_modify \<longrightarrow> map_of desired k = Some v"
    unfolding A M by (auto simp: mem)
  show ?thesis
    unfolding c1 c2 c3 using c4 by auto
qed

theorem calculate_route_diff_exact_witness:
  "distinct (map fst desired_example)
   \<and> calculate_route_diff desired_example current_example =
       ([(''10.254.0.3'', ''10.254.0.2'')], [(''10.254.0.5'', ''10.254.0.2'')], [''10.254.0.6''])
   \<and> {''10.254.0.3''} = {k. map_of desired_example k \<noteq> None \<and> map_of current_example k = None}
   \<and> {''10.254.0.5''} =
        {k. \<exists>v c. map_of desired_example k = Some v \<and> map_of current_example k = Some c \<and> c \<noteq> v}
   \<and> {''10.254.0.6''} = {k. map_of current_example k \<noteq> None \<and> map_of desired_example k = None}"
proof -
  have d: "distinct (map fst desired_example)"
    by (simp add: desired_example_def)
  have e: "calculate_route_diff desired_example current_example =
       ([(''10.254.0.3'', ''10.254.0.2'')], [(''10.254.0.5'', ''10.254.0.2'')], [''10.254.0.6''])"
    by (simp add: calculate_route_diff_def diff_desired_step_def desired_example_def
        current_example_def)
  show ?thesis
    using d e calculate_route_diff_exact[OF d e] by simp
qed

section \<open>The subnet constraint\<close>

text \<open>
  C6. When the destination lies outside the allowed subnet, or the next hop is not
  \<open>direct\<close> and lies outside the allowed subnet, \<open>apply_route\<close> fails and runs no command
  (the list of commands run is unchanged), and no replace command is generated; for a
  destination outside the subnet no delete command is generated either.
\<close>

theorem subnet_violation_issues_nothing:
  assumes "\<not> is_ip_in_allowed_subnet ex D \<or> (H \<noteq> ''direct'' \<and> \<not> is_ip_in_allowed_subnet ex H)"
  shows "apply_route sh ex tr D H = (False, tr)
       \<and> generate_route_add_command ex D H = None
       \<and> (\<not> is_ip_in_allowed_subnet ex D \<longrightarrow> generate_route_del_command ex D = None)"
  using assms
  by (auto simp: apply_route_def generate_route_del_command_def generate_route_add_command_def)

theorem subnet_violation_issues_nothing_witness:
  "\<not> is_ip_in_allowed_subnet overlay_executor ''192.168.1.1''
   \<and> apply_route shell_permission_denied overlay_executor [] ''192.168.1.1'' ''10.254.0.2''
       = (False, [])
   \<and> generate_route_del_command overlay_executor ''192.168.1.1'' = None
   \<and> ''192.168.1.1'' \<noteq> ''direct''
   \<and> apply_route shell_permission_denied overlay_executor [] ''10.254.0.3'' ''192.168.1.1''
       = (False, [])"
proof -
  have h: "\<not> is_ip_in_allowed_subnet overlay_executor ''192.168.1.1''" by code_simp
  show ?thesis
    using h
      subnet_violation_issues_nothing[of overlay_executor "''192.168.1.1''" "''10.254.0.2''"
        shell_permission_denied "[]"]
      subnet_violation_issues_nothing[of overlay_executor "''10.254.0.3''" "''192.168.1.1''"
        shell_permission_denied "[]"]
    by simp
qed

section \<open>Deleting a route\<close>

text \<open>
  C5, as the claim states it, fails: a delete command that exits with status 2 and the
  error "Operation not permitted" is no "route does not exist" failure, and
  \<open>apply_route\<close> still reports success.
\<close>

theorem apply_direct_nonzero_exit_counterexample:
  "shell_permission_denied [] [''ip'', ''route'', ''del'', ''10.254.0.3/32'', ''dev'', ''wg0'']
     = Exited 2 [] ''RTNETLINK answers: Operation not permitted''
   \<and> apply_route shell_permission_denied overlay_executor [] ''10.254.0.3'' ''direct''
     = (True, [[''ip'', ''route'', ''del'', ''10.254.0.3/32'', ''dev'', ''wg0'']])"
  by code_simp

text \<open>
  C5, amended. For a destination inside the allowed subnet, \<open>apply_route\<close> with next hop
  \<open>direct\<close> runs exactly the delete command for the host route, and reports success
  whenever the command exits, whatever its exit status and error output; it reports
  failure when the command times out or cannot be run.
\<close>

theorem apply_direct_outcome:
  assumes "is_ip_in_allowed_subnet ex D"
  shows "apply_route sh ex tr D ''direct'' =
     ((case sh tr [''ip'', ''route'', ''del'', D @ ''/32'', ''dev'', wg_interface ex] of
          Exited rc out err \<Rightarrow> True
        | TimeoutExpired \<Rightarrow> False
        | LaunchError \<Rightarrow> False),
      tr @ [[''ip'', ''route'', ''del'', D @ ''/32'', ''dev'', wg_interface ex]])"
  using assms
  by (simp add: apply_route_def generate_route_del_command_def split: proc_result.splits)

theorem apply_direct_outcome_witness:
  "is_ip_in_allowed_subnet overlay_executor ''10.254.0.3''
   \<and> apply_route shell_permission_denied overlay_executor [] ''10.254.0.3'' ''direct'' =
       (True, [[''ip'', ''route'', ''del'', ''10.254.0.3/32'', ''dev'', ''wg0'']])"
proof -
  have h: "is_ip_in_allowed_subnet overlay_executor ''10.254.0.3''" by code_simp
  show ?thesis
    using h apply_direct_outcome[OF h, of shell_permission_denied "[]"]
    by (simp add: shell_permission_denied_def overlay_executor_def Executor_init_def)
qed

section \<open>The retry wrapper and the sync loop\<close>

lemma retry_loop_fetch_success_at:
  assumes "retry_backoff cl \<noteq> []"
    and "k + i < nat (retry_attempts cl)"
    and "\<forall>j<i. fetch_routes_result (net (requests w + j)) = None"
    and "fetch_routes_result (net (requests w + i)) = Some routes"
  shows "retry_loop cl (fetch_routes net) [k..<nat (retry_attempts cl)] w =
           (Inr routes, w\<lparr>requests := requests w + i + 1,
                           sleeps := sleeps w @ map (\<lambda>j. backoff_delay cl (k + j)) [0..<i]\<rparr>)"
  using assms
proof (induction i arbitrary: k w)
  case 0
  then have lt: "k < nat (retry_attempts cl)" by simp
  from 0 show ?case
    by (simp add: upt_conv_Cons[OF lt] fetch_routes_def)
next
  case (Suc i)
  then have lt: "k < nat (retry_attempts cl)" by simp
  from Suc.prems have more: "int k < retry_attempts cl - 1" by linarith
  have f0: "fetch_routes_result (net (requests w)) = None"
    using Suc.prems(3) by (metis add_0_right zero_less_Suc)
  let ?w2 = "sleep (backoff_delay cl k) (w\<lparr>requests := requests w + 1\<rparr>)"
  have r2: "requests ?w2 = Suc (requests w)" by (simp add: sleep_def)
  have a3: "\<forall>j<i. fetch_routes_result (net (requests ?w2 + j)) = None"
  proof (intro allI impI)
    fix j assume "j < i"
    then have "fetch_routes_result (net (requests w + Suc j)) = None"
      using Suc.prems(3) by (meson Suc_less_eq)
    then show "fetch_routes_result (net (requests ?w2 + j)) = None"
      unfolding r2 by simp
  qed
  have a4: "fetch_routes_result (net (requests ?w2 + i)) = Some routes"
    using Suc.prems(4) unfolding r2 by simp
  have a2: "Suc k + i < nat (retry_attempts cl)" using Suc.prems(2) by simp
  have IH: "retry_loop cl (fetch_routes net) [Suc k..<nat (retry_attempts cl)] ?w2 =
           (Inr routes, ?w2\<lparr>requests := requests ?w2 + i + 1,
                           sleeps := sleeps ?w2 @ map (\<lambda>j. backoff_delay cl (Suc k + j)) [0..<i]\<rparr>)"
    by (rule Suc.IH[OF Suc.prems(1) a2 a3 a4])
  have m: "map (\<lambda>j. backoff_delay cl (k + j)) [0..<Suc i]
      = backoff_delay cl k # map (\<lambda>j. backoff_delay cl (Suc k + j)) [0..<i]"
    by (simp add: upt_rec[of 0 "Suc i"] map_Suc_upt[symmetric] del: upt_Suc)
  have step: "retry_loop cl (fetch_routes net) (k # [Suc k..<nat (retry_attempts cl)]) w
      = retry_loop cl (fetch_routes net) [Suc k..<nat (retry_attempts cl)] ?w2"
    using more Suc.prems(1) f0
    by (simp add: fetch_routes_def backoff_delay_def)
  show ?case
    unfolding upt_conv_Cons[OF lt] step IH m
    by (simp add: sleep_def)
qed

lemma retry_loop_fetch_all_fail:
  assumes "retry_backoff cl \<noteq> []"
    and "\<forall>j < n - k. fetch_routes_result (net (requests w + j)) = None"
  shows "\<exists>w'. retry_loop cl (fetch_routes net) [k..<n] w = (Inl RetryExhausted, w')
           \<and> requests w' = requests w + (n - k) \<and> commands w' = commands w \<and> caught w' = caught w"
  using assms
proof (induction "n - k" arbitrary: k w)
  case 0
  then show ?case by simp
next
  case (Suc d)
  then have lt: "k < n" by simp
  have f0: "fetch_routes_result (net (requests w)) = None"
    using Suc.prems(2) Suc.hyps(2) by (metis add_0_right zero_less_Suc)
  define w1 where "w1 = w\<lparr>requests := requests w + 1\<rparr>"
  define w2 where "w2 = (if int k < retry_attempts cl - 1 then sleep (backoff_delay cl k) w1 else w1)"
  have r2: "requests w2 = Suc (requests w)" "commands w2 = commands w" "caught w2 = caught w"
    by (simp_all add: w2_def w1_def sleep_def)
  have d: "d = n - Suc k" using Suc.hyps(2) by simp
  have a: "\<forall>j < n - Suc k. fetch_routes_result (net (requests w2 + j)) = None"
  proof (intro allI impI)
    fix j assume "j < n - Suc k"
    then have "Suc j < n - k" by simp
    then have "fetch_routes_result (net (requests w + Suc j)) = None"
      using Suc.prems(2) by blast
    then show "fetch_routes_result (net (requests w2 + j)) = None"
      unfolding r2 by simp
  qed
  from Suc.hyps(1)[OF d Suc.prems(1) a]
  obtain w' where w': "retry_loop cl (fetch_routes net) [Suc k..<n] w2 = (Inl RetryExhausted, w')"
    "requests w' = requests w2 + (n - Suc k)" "commands w' = commands w2" "caught w' = caught w2"
    by blast
  have step: "retry_loop cl (fetch_routes net) (k # [Suc k..<n]) w
      = retry_loop cl (fetch_routes net) [Suc k..<n] w2"
    using Suc.prems(1) f0
    by (simp add: fetch_routes_def backoff_delay_def w2_def w1_def)
  show ?case
    unfolding upt_conv_Cons[OF lt] step
    using w' r2 lt by auto
qed


text \<open>
  C10. If the attempts before attempt \<open>i\<close> fail and attempt \<open>i\<close> is answered 200 with an empty
  route list, \<open>fetch_routes_with_retry\<close> returns that empty list as its result: attempt \<open>i\<close>
  is the last request, the only sleeps are the backoff delays after the earlier failed
  attempts, and RetryExhausted is not raised (the result is not \<open>None\<close>).
\<close>

theorem empty_route_list_is_success:
  assumes "retry_backoff cl \<noteq> []"
    and "i < nat (retry_attempts cl)"
    and "\<forall>j<i. fetch_routes_result (net (requests w + j)) = None"
    and "net (requests w + i) = Response 200 (JsonRoutes [])"
  shows "fetch_routes_with_retry net cl w =
           (Inr (Some []), w\<lparr>requests := requests w + i + 1,
                             sleeps := sleeps w @ map (backoff_delay cl) [0..<i]\<rparr>)"
proof -
  have ok: "fetch_routes_result (net (requests w + i)) = Some []"
    by (simp add: assms(4) fetch_routes_result_def)
  have "0 + i < nat (retry_attempts cl)" using assms(2) by simp
  from retry_loop_fetch_success_at[OF assms(1) this assms(3) ok]
  show ?thesis
    by (simp add: fetch_routes_with_retry_def retry_with_backoff_def)
qed

theorem empty_route_list_is_success_witness:
  "retry_backoff overlay_client \<noteq> []
   \<and> (1::nat) < nat (retry_attempts overlay_client)
   \<and> fetch_routes_result (net_timeout_then_empty (requests world0 + 0)) = None
   \<and> net_timeout_then_empty (requests world0 + 1) = Response 200 (JsonRoutes [])
   \<and> fetch_routes_with_retry net_timeout_then_empty overlay_client world0 =
        (Inr (Some []), world0\<lparr>requests := 2, sleeps := [1]\<rparr>)"
proof -
  have a: "retry_backoff overlay_client \<noteq> []"
    by (simp add: overlay_client_def ControllerClient_init_def)
  have b: "(1::nat) < nat (retry_attempts overlay_client)"
    by (simp add: overlay_client_def ControllerClient_init_def)
  have c: "\<forall>j<(1::nat). fetch_routes_result (net_timeout_then_empty (requests world0 + j)) = None"
    by (simp add: net_timeout_then_empty_def world0_def fetch_routes_result_def)
  have d: "net_timeout_then_empty (requests world0 + 1) = Response 200 (JsonRoutes [])"
    by (simp add: net_timeout_then_empty_def)
  have e: "backoff_delay overlay_client 0 = 1"
    by (simp add: backoff_delay_def overlay_client_def ControllerClient_init_def)
  show ?thesis
    using a b c d empty_route_list_is_success[OF a b c d]
    by (simp add: e world0_def)
qed

lemma fetch_with_retry_all_fail:
  assumes "retry_backoff cl \<noteq> []"
    and "\<forall>j < nat (retry_attempts cl). fetch_routes_result (net (requests w + j)) = None"
  shows "\<exists>w'. fetch_routes_with_retry net cl w = (Inr None, w')
           \<and> requests w' = requests w + nat (retry_attempts cl)
           \<and> commands w' = commands w \<and> caught w' = caught w"
proof -
  have "\<forall>j < nat (retry_attempts cl) - 0. fetch_routes_result (net (requests w + j)) = None"
    using assms(2) by simp
  from retry_loop_fetch_all_fail[OF assms(1) this]
  show ?thesis
    by (auto simp: fetch_routes_with_retry_def retry_with_backoff_def)
qed

lemma enter_fallback_sets_flag: "in_fallback_mode (fst (enter_fallback_mode sh ag w))"
  by (simp add: enter_fallback_mode_def split: prod.splits)

text \<open>
  C2, amended. On status 404 \<open>fetch_routes\<close> returns \<open>None\<close> from that one request. The
  retry wrapper counts this as a failed attempt: when the telemetry of a sync cycle was
  accepted and every fetch attempt of the cycle is answered 404, \<open>fetch_routes_with_retry\<close>
  returns \<open>None\<close> after \<open>retry_attempts\<close> requests and the agent is in fallback mode at the
  end of the cycle.
\<close>

theorem not_found_on_every_attempt_enters_fallback:
  assumes "latest_metrics ag = Some ms" and "ms \<noteq> []" and "now > 0"
    and "send_telemetry_with_retry net (client ag) w = (Inr True, w1)"
    and "retry_backoff (client ag) \<noteq> []"
    and "\<forall>j < nat (retry_attempts (client ag)). \<exists>body. net (requests w1 + j) = Response 404 body"
  shows "(\<forall>body. fetch_routes_result (Response 404 body) = None)
       \<and> (\<exists>w2. fetch_routes_with_retry net (client ag) w1 = (Inr None, w2)
              \<and> requests w2 = requests w1 + nat (retry_attempts (client ag)))
       \<and> in_fallback_mode (fst (executor_loop_iteration net sh now ag w))"
proof -
  have nf: "\<forall>body. fetch_routes_result (Response 404 body) = None"
    by (simp add: fetch_routes_result_def)
  have fail: "\<forall>j < nat (retry_attempts (client ag)). fetch_routes_result (net (requests w1 + j)) = None"
    using assms(6) nf by metis
  from fetch_with_retry_all_fail[OF assms(5) fail]
  obtain w2 where w2: "fetch_routes_with_retry net (client ag) w1 = (Inr None, w2)"
    "requests w2 = requests w1 + nat (retry_attempts (client ag))" by blast
  define ag1 where "ag1 = (if in_fallback_mode ag then exit_fallback_mode ag else ag)"
  have cl1: "client ag1 = client ag" by (simp add: ag1_def exit_fallback_mode_def)
  have "executor_loop_iteration net sh now ag w =
      (case enter_fallback_mode sh ag1 w2 of (ag2, w3) \<Rightarrow> (ag2, sleep (sync_interval ag2) w3))"
    using assms(1-4) w2(1) cl1
    by (simp add: executor_loop_iteration_def ag1_def[symmetric] Let_def)
  then have "in_fallback_mode (fst (executor_loop_iteration net sh now ag w))"
    using enter_fallback_sets_flag[of sh ag1 w2] by (simp split: prod.splits)
  with nf w2 show ?thesis by blast
qed

lemma agent0_telemetry:
  "send_telemetry_with_retry net_unknown_agent (client agent0) world0 = (Inr True, world0\<lparr>requests := 1\<rparr>)"
  by (simp add: send_telemetry_with_retry_def retry_with_backoff_def agent0_def overlay_client_def
      ControllerClient_init_def send_telemetry_def send_telemetry_result_def net_unknown_agent_def
      world0_def upt_rec[of 0])

text \<open>
  C2, as the claim states it, fails: an agent outside fallback mode whose telemetry is
  accepted and whose three fetch attempts are all answered 404 ends the cycle in fallback
  mode, having run the listing command of the flush.
\<close>

theorem not_found_enters_fallback_counterexample:
  "fetch_routes net_unknown_agent (world0\<lparr>requests := 1\<rparr>) = (None, world0\<lparr>requests := 2\<rparr>)
   \<and> \<not> in_fallback_mode agent0
   \<and> in_fallback_mode
       (fst (executor_loop_iteration net_unknown_agent shell_empty_table 1700000000 agent0 world0))
   \<and> snd (executor_loop_iteration net_unknown_agent shell_empty_table 1700000000 agent0 world0)
       = \<lparr>requests = 4, sleeps = [1, 2, 10], commands = [show_command], caught = []\<rparr>"
  by code_simp

theorem not_found_on_every_attempt_enters_fallback_witness:
  "latest_metrics agent0 \<noteq> None \<and> (0::int) < 1700000000
   \<and> send_telemetry_with_retry net_unknown_agent (client agent0) world0
        = (Inr True, world0\<lparr>requests := 1\<rparr>)
   \<and> retry_backoff (client agent0) \<noteq> []
   \<and> nat (retry_attempts (client agent0)) = 3
   \<and> net_unknown_agent (requests (world0\<lparr>requests := 1\<rparr>) + 0) = Response 404 NotJson
   \<and> net_unknown_agent (requests (world0\<lparr>requests := 1\<rparr>) + 1) = Response 404 NotJson
   \<and> net_unknown_agent (requests (world0\<lparr>requests := 1\<rparr>) + 2) = Response 404 NotJson
   \<and> in_fallback_mode
       (fst (executor_loop_iteration net_unknown_agent shell_empty_table 1700000000 agent0 world0))"
proof -
  have m: "latest_metrics agent0 = Some [\<lparr>target_ip = ''10.254.0.2'', rtt_ms = Some 35, loss_rate = 0\<rparr>]"
    by (simp add: agent0_def)
  have ne: "[\<lparr>target_ip = ''10.254.0.2'', rtt_ms = Some 35, loss_rate = 0\<rparr>] \<noteq> []" by simp
  have n: "(0::int) < 1700000000" by simp
  have b: "retry_backoff (client agent0) \<noteq> []"
    by (simp add: agent0_def overlay_client_def ControllerClient_init_def)
  have nf: "\<forall>j < nat (retry_attempts (client agent0)).
         \<exists>body. net_unknown_agent (requests (world0\<lparr>requests := 1\<rparr>) + j) = Response 404 body"
    by (simp add: net_unknown_agent_def)
  have k: "nat (retry_attempts (client agent0)) = 3"
    by (simp add: agent0_def overlay_client_def ControllerClient_init_def)
  have e: "net_unknown_agent (requests (world0\<lparr>requests := 1\<rparr>) + 0) = Response 404 NotJson"
    "net_unknown_agent (requests (world0\<lparr>requests := 1\<rparr>) + 1) = Response 404 NotJson"
    "net_unknown_agent (requests (world0\<lparr>requests := 1\<rparr>) + 2) = Response 404 NotJson"
    by (simp_all add: net_unknown_agent_def)
  show ?thesis
    using m n b k e agent0_telemetry
      not_found_on_every_attempt_enters_fallback[OF m ne n agent0_telemetry b nf, of shell_empty_table]
    by simp
qed


text \<open>
  C1 at a concrete cycle: the telemetry is accepted and the fetch returns one relay route
  while the kernel table is empty. Class Executor binds no method \<open>sync_routes\<close>, so the
  call in the loop raises AttributeError, which the loop catches: no command is run. The
  statements that follow \<open>flush_all_routes\<close> would have listed the table and installed
  the route.
\<close>

theorem sync_routes_is_never_run:
  "''sync_routes'' \<notin> set Executor_methods
   \<and> fetch_routes_with_retry net_one_route (client agent0) (world0\<lparr>requests := 1\<rparr>)
        = (Inr (Some [relay_route]), world0\<lparr>requests := 2\<rparr>)
   \<and> executor_loop_iteration net_one_route shell_empty_table 1700000000 agent0 world0
        = (agent0, \<lparr>requests = 2, sleeps = [10], commands = [], caught = [AttributeError]\<rparr>)
   \<and> sync_statements shell_empty_table overlay_executor [] [relay_route]
        = (True, overlay_executor,
           [show_command,
            [''ip'', ''route'', ''replace'', ''10.254.0.3/32'', ''via'', ''10.254.0.2'', ''dev'', ''wg0'']])"
  by code_simp

section \<open>Reading the kernel table\<close>

text \<open>
  C9 at a concrete listing. With the overlay interface wg0, the relay route and the direct
  route on wg0 are read, and the subnet route and the route on eth0 are ignored; but the
  host route bound to the other interface wg01 is read as well, as a direct route: the
  interface test is \<open>self.wg_interface not in line\<close>, a substring test on the whole line. A
  listing command that fails gives the empty dict.
\<close>

theorem other_interface_entry_is_read:
  "fst (get_current_routes shell_two_interfaces overlay_executor []) =
     [(''10.254.0.3'', ''10.254.0.2''), (''10.254.0.4'', ''direct''), (''10.254.0.9'', ''direct'')]
   \<and> parse_route_line overlay_executor [] ''10.254.0.9 dev wg01 scope link''
       = [(''10.254.0.9'', ''direct'')]
   \<and> fst (get_current_routes shell_permission_denied overlay_executor []) = []"
  by code_simp

section \<open>Probing and smoothing\<close>

lemma swb_append_last_n:
  assumes "maxlen b = int W" and "0 < W" and "buffer b = last_n W xs"
  shows "buffer (swb_append b v) = last_n W (xs @ [v]) \<and> maxlen (swb_append b v) = int W"
proof (cases "length xs < W")
  case True
  then have "buffer b = xs" using assms(3) by (simp add: last_n_def)
  with True assms(1) show ?thesis
    by (simp add: swb_append_def last_n_def)
next
  case False
  then have len: "length (buffer b) = W" using assms(3) by (simp add: last_n_def)
  have "tl (drop (length xs - W) xs) = drop (Suc (length xs) - W) xs"
    using False by (simp add: tl_drop Suc_diff_le drop_Suc)
  with False len assms show ?thesis
    by (simp add: swb_append_def last_n_def Suc_diff_le)
qed

lemma swb_append_set: "set (buffer (swb_append b v)) \<subseteq> insert v (set (buffer b))"
  by (cases "buffer b") (auto simp: swb_append_def dest: list.set_sel(2))

lemma record_result_tracks:
  assumes "tracks W R L pb" and "0 < W"
  shows "tracks W (R @ rtt_samples (ping p)) (L @ [loss_sample (ping p)])
           (record_result pb (probe_once ping p))"
proof -
  from assms(1) have m: "maxlen (rtt pb) = int W" "maxlen (loss pb) = int W"
    and b: "buffer (rtt pb) = last_n W R" "buffer (loss pb) = last_n W L"
    by (simp_all add: tracks_def)
  note r = swb_append_last_n[OF m(1) assms(2) b(1)]
  note l = swb_append_last_n[OF m(2) assms(2) b(2)]
  show ?thesis
    using r l m b
    by (cases "ping p")
      (simp_all add: tracks_def record_result_def probe_once_def rtt_samples_def loss_sample_def)
qed

lemma record_result_sane:
  assumes "sane pb" and "nonneg_replies ping"
  shows "sane (record_result pb (probe_once ping p))"
proof (cases "ping p")
  case (Reply s)
  with assms(2) have "0 \<le> s * 1000" by (simp add: nonneg_replies_def)
  with assms(1) Reply show ?thesis
    using swb_append_set[of "rtt pb" "s * 1000"] swb_append_set[of "loss pb" 0]
    by (auto simp: sane_def record_result_def probe_once_def)
next
  case NoReply
  with assms(1) show ?thesis
    using swb_append_set[of "loss pb" 1]
    by (auto simp: sane_def record_result_def probe_once_def)
next
  case ErrorReturn
  with assms(1) show ?thesis
    using swb_append_set[of "rtt pb" 0] swb_append_set[of "loss pb" 0]
    by (auto simp: sane_def record_result_def probe_once_def)
next
  case PingRaised
  with assms(1) show ?thesis
    using swb_append_set[of "loss pb" 1]
    by (auto simp: sane_def record_result_def probe_once_def)
qed

lemma probe_peers_buffers:
  assumes "distinct ps" and "\<forall>p\<in>set ps. map_of (buffers pr) p \<noteq> None"
  shows "\<exists>res pr'. probe_peers ping ps results pr = Inr (res, pr')
           \<and> peer_ips pr' = peer_ips pr
           \<and> (\<forall>p. map_of (buffers pr') p =
                 (if p \<in> set ps
                  then map_option (\<lambda>pb. record_result pb (probe_once ping p)) (map_of (buffers pr) p)
                  else map_of (buffers pr) p))"
  using assms
proof (induction ps arbitrary: results pr)
  case Nil
  then show ?case by simp
next
  case (Cons p ps)
  from Cons.prems obtain pb where pb: "map_of (buffers pr) p = Some pb" by auto
  define pr1 where
    "pr1 = pr\<lparr>buffers := AList.update p (record_result pb (probe_once ping p)) (buffers pr)\<rparr>"
  have m1: "map_of (buffers pr1) = (map_of (buffers pr))(p \<mapsto> record_result pb (probe_once ping p))"
    by (simp add: pr1_def update_conv')
  have d: "distinct ps" and np: "p \<notin> set ps" using Cons.prems(1) by simp_all
  have ex: "\<forall>q\<in>set ps. map_of (buffers pr1) q \<noteq> None"
    using Cons.prems(2) np by (auto simp: m1)
  from Cons.IH[OF d ex, of "results @ [probe_once ping p]"]
  obtain res pr' where r: "probe_peers ping ps (results @ [probe_once ping p]) pr1 = Inr (res, pr')"
    "peer_ips pr' = peer_ips pr1"
    "\<forall>q. map_of (buffers pr') q =
        (if q \<in> set ps
         then map_option (\<lambda>pb. record_result pb (probe_once ping q)) (map_of (buffers pr1) q)
         else map_of (buffers pr1) q)"
    by blast
  have step: "probe_peers ping (p # ps) results pr
      = probe_peers ping ps (results @ [probe_once ping p]) pr1"
    by (simp add: pb pr1_def Let_def)
  have "\<forall>q. map_of (buffers pr') q =
        (if q \<in> set (p # ps)
         then map_option (\<lambda>pb. record_result pb (probe_once ping q)) (map_of (buffers pr) q)
         else map_of (buffers pr) q)"
    using r(3) np pb by (auto simp: m1)
  moreover have "peer_ips pr' = peer_ips pr" using r(2) by (simp add: pr1_def)
  ultimately show ?case using r(1) unfolding step by blast
qed


lemma probe_cycles_tracks:
  assumes "distinct (peer_ips pr)"
    and "\<forall>p\<in>set (peer_ips pr). \<exists>pb. map_of (buffers pr) p = Some pb \<and> I pb"
    and "P \<in> set (peer_ips pr)"
    and "map_of (buffers pr) P = Some pb" and "tracks W R L pb" and "0 < W"
    and "\<forall>ping\<in>set pings. \<forall>qb p. I qb \<longrightarrow> I (record_result qb (probe_once ping p))"
  shows "\<exists>pr' pb'. probe_cycles pings pr = Inr pr' \<and> peer_ips pr' = peer_ips pr
           \<and> (\<forall>p\<in>set (peer_ips pr). \<exists>pb. map_of (buffers pr') p = Some pb \<and> I pb)
           \<and> map_of (buffers pr') P = Some pb'
           \<and> tracks W (R @ concat (map (\<lambda>ping. rtt_samples (ping P)) pings))
                      (L @ map (\<lambda>ping. loss_sample (ping P)) pings) pb'"
  using assms
proof (induction pings arbitrary: pr pb R L)
  case Nil
  then show ?case by simp
next
  case (Cons ping pings)
  have ex: "\<forall>p\<in>set (peer_ips pr). map_of (buffers pr) p \<noteq> None"
    using Cons.prems(2) by auto
  from probe_peers_buffers[OF Cons.prems(1) ex, of ping "[]"]
  obtain res pr1 where r: "probe_all ping pr = Inr (res, pr1)" "peer_ips pr1 = peer_ips pr"
    "\<forall>p. map_of (buffers pr1) p =
        (if p \<in> set (peer_ips pr)
         then map_option (\<lambda>pb. record_result pb (probe_once ping p)) (map_of (buffers pr) p)
         else map_of (buffers pr) p)"
    unfolding probe_all_def by blast
  have ng: "\<And>qb p. I qb \<Longrightarrow> I (record_result qb (probe_once ping p))"
    using Cons.prems(7) by simp
  have a1: "distinct (peer_ips pr1)" using Cons.prems(1) r(2) by simp
  have a2: "\<forall>p\<in>set (peer_ips pr1). \<exists>pb. map_of (buffers pr1) p = Some pb \<and> I pb"
  proof
    fix p assume "p \<in> set (peer_ips pr1)"
    then have p: "p \<in> set (peer_ips pr)" using r(2) by simp
    with Cons.prems(2) obtain qb where qb: "map_of (buffers pr) p = Some qb" "I qb" by blast
    have "map_of (buffers pr1) p = Some (record_result qb (probe_once ping p))"
      using r(3) p qb(1) by simp
    with ng[OF qb(2)]
    show "\<exists>pb. map_of (buffers pr1) p = Some pb \<and> I pb" by blast
  qed
  have a3: "P \<in> set (peer_ips pr1)" using Cons.prems(3) r(2) by simp
  have a4: "map_of (buffers pr1) P = Some (record_result pb (probe_once ping P))"
    using r(3) Cons.prems(3,4) by simp
  have a5: "tracks W (R @ rtt_samples (ping P)) (L @ [loss_sample (ping P)])
              (record_result pb (probe_once ping P))"
    by (rule record_result_tracks[OF Cons.prems(5,6)])
  have a7: "\<forall>ping\<in>set pings. \<forall>qb p. I qb \<longrightarrow> I (record_result qb (probe_once ping p))"
    using Cons.prems(7) by simp
  from Cons.IH[OF a1 a2 a3 a4 a5 Cons.prems(6) a7]
  show ?case using r(1,2) by simp
qed

lemma sum_list_le_length:
  fixes xs :: "rat list"
  shows "\<forall>x\<in>set xs. x \<le> 1 \<Longrightarrow> sum_list xs \<le> of_nat (length xs)"
  by (induction xs) auto

lemma moving_average_range:
  assumes "\<forall>x\<in>set (buffer b). 0 \<le> x \<and> x \<le> 1"
  shows "(case get_moving_average b of None \<Rightarrow> 0 | Some l \<Rightarrow> l) \<in> {0..1}"
proof (cases "buffer b = []")
  case True
  then show ?thesis by (simp add: get_moving_average_def)
next
  case False
  have "0 \<le> sum_list (buffer b)" using assms by (simp add: sum_list_nonneg)
  moreover have "sum_list (buffer b) \<le> of_nat (length (buffer b))"
    using assms by (simp add: sum_list_le_length)
  moreover have "(0::rat) < of_nat (length (buffer b))" using False by simp
  ultimately show ?thesis using False
    by (simp add: get_moving_average_def divide_le_eq)
qed

lemma moving_average_nonneg:
  assumes "\<forall>x\<in>set (buffer b). 0 \<le> x"
  shows "\<not> (case get_moving_average b of Some v \<Rightarrow> v < 0 | None \<Rightarrow> False)"
proof (cases "buffer b = []")
  case True
  then show ?thesis by (simp add: get_moving_average_def)
next
  case False
  have "0 \<le> sum_list (buffer b)" using assms by (simp add: sum_list_nonneg)
  then show ?thesis using False
    by (simp add: get_moving_average_def not_less)
qed

lemma smoothed_from_sane:
  assumes "\<forall>p\<in>set ps. \<exists>pb. map_of (buffers pr) p = Some pb \<and> sane pb"
  shows "\<exists>ms. smoothed_from pr ps acc = Inr ms \<and> set acc \<subseteq> set ms
           \<and> (\<forall>p\<in>set ps. \<forall>pb. map_of (buffers pr) p = Some pb \<longrightarrow>
                 \<lparr>target_ip = p, rtt_ms = get_moving_average (rtt pb),
                  loss_rate = (case get_moving_average (loss pb) of None \<Rightarrow> 0 | Some l \<Rightarrow> l)\<rparr>
                   \<in> set ms)"
  using assms
proof (induction ps arbitrary: acc)
  case Nil
  then show ?case by simp
next
  case (Cons p ps)
  from Cons.prems obtain pb where pb: "map_of (buffers pr) p = Some pb" "sane pb" by auto
  define m where "m = \<lparr>target_ip = p, rtt_ms = get_moving_average (rtt pb),
                  loss_rate = (case get_moving_average (loss pb) of None \<Rightarrow> 0 | Some l \<Rightarrow> l)\<rparr>"
  have ok: "Metric_init p (get_moving_average (rtt pb))
              (case get_moving_average (loss pb) of None \<Rightarrow> 0 | Some l \<Rightarrow> l) = Inr m"
    using moving_average_range[of "loss pb"] moving_average_nonneg[of "rtt pb"] pb(2)
    by (simp add: Metric_init_def sane_def m_def)
  have step: "smoothed_from pr (p # ps) acc = smoothed_from pr ps (acc @ [m])"
    by (simp add: pb(1) ok Let_def)
  have "\<forall>q\<in>set ps. \<exists>pb. map_of (buffers pr) q = Some pb \<and> sane pb" using Cons.prems by simp
  from Cons.IH[OF this, of "acc @ [m]"]
  obtain ms where ms: "smoothed_from pr ps (acc @ [m]) = Inr ms" "set (acc @ [m]) \<subseteq> set ms"
    "\<forall>q\<in>set ps. \<forall>pb. map_of (buffers pr) q = Some pb \<longrightarrow>
                 \<lparr>target_ip = q, rtt_ms = get_moving_average (rtt pb),
                  loss_rate = (case get_moving_average (loss pb) of None \<Rightarrow> 0 | Some l \<Rightarrow> l)\<rparr>
                   \<in> set ms"
    by blast
  have "m \<in> set ms" using ms(2) by simp
  then show ?case
    unfolding step using ms pb(1) by (auto simp: m_def)
qed

lemma map_of_foldl_update:
  "map_of (foldl (\<lambda>d ip. AList.update ip v d) d0 ps) p
     = (if p \<in> set ps then Some v else map_of d0 p)"
  by (induction ps arbitrary: d0) (auto simp: update_conv')

lemma Prober_init_buffers:
  assumes "Prober_init peers iv tmo W = Inr pr" and "P \<in> set peers"
  shows "peer_ips pr = peers \<and> 0 < W
       \<and> (\<forall>p\<in>set peers.
            map_of (buffers pr) p =
              Some \<lparr>rtt = \<lparr>maxlen = W, buffer = []\<rparr>, loss = \<lparr>maxlen = W, buffer = []\<rparr>\<rparr>)"
proof -
  from assms(2) have ne: "peers \<noteq> []" by auto
  from assms(1) ne have w: "0 < W"
    by (auto simp: Prober_init_def SlidingWindowBuffer_init_def split: if_splits)
  from assms(1) ne w have "pr = \<lparr>peer_ips = peers, interval = iv, ping_timeout = tmo, window_size = W,
      buffers = foldl (\<lambda>d ip. AList.update ip
          \<lparr>rtt = \<lparr>maxlen = W, buffer = []\<rparr>, loss = \<lparr>maxlen = W, buffer = []\<rparr>\<rparr> d) [] peers\<rparr>"
    by (simp add: Prober_init_def SlidingWindowBuffer_init_def)
  then show ?thesis using w by (simp add: map_of_foldl_update)
qed


lemma scenario_loss_sum:
  assumes "\<forall>x\<in>set xs. f x = Reply c \<or> f x = NoReply \<or> f x = PingRaised"
  shows "sum_list (map (\<lambda>x. loss_sample (f x)) xs)
           + of_nat (length (filter (\<lambda>x. f x = Reply c) xs)) = of_nat (length xs)"
  using assms by (induction xs) (auto simp: loss_sample_def)

lemma scenario_rtt_samples:
  assumes "\<forall>x\<in>set xs. f x = Reply c \<or> f x = NoReply \<or> f x = PingRaised"
  shows "concat (map (\<lambda>x. rtt_samples (f x)) xs)
           = replicate (length (filter (\<lambda>x. f x = Reply c) xs)) (c * 1000)"
  using assms by (induction xs) (auto simp: rtt_samples_def)

lemma scenario_seven_of_ten:
  assumes "length pings = 10"
    and "length (filter (\<lambda>ping. ping P = Reply (1 / 20)) pings) = 7"
    and "\<forall>ping\<in>set pings. ping P = Reply (1 / 20) \<or> ping P = NoReply \<or> ping P = PingRaised"
    and "buffer (loss pb) = last_n 10 (map (\<lambda>ping. loss_sample (ping P)) pings)"
    and "buffer (rtt pb) = last_n 10 (concat (map (\<lambda>ping. rtt_samples (ping P)) pings))"
  shows "get_moving_average (rtt pb) = Some 50
       \<and> (case get_moving_average (loss pb) of None \<Rightarrow> 0 | Some l \<Rightarrow> l) = 3 / 10"
proof -
  from scenario_loss_sum[OF assms(3)] assms(1,2)
  have s: "sum_list (map (\<lambda>ping. loss_sample (ping P)) pings) = 3" by simp
  have l: "buffer (loss pb) = map (\<lambda>ping. loss_sample (ping P)) pings"
    using assms(4,1) by (simp add: last_n_def)
  from scenario_rtt_samples[OF assms(3)] assms(2)
  have r: "concat (map (\<lambda>ping. rtt_samples (ping P)) pings) = replicate 7 50" by simp
  have b: "buffer (rtt pb) = replicate 7 50"
    using assms(5) unfolding r by (simp add: last_n_def)
  have ne: "pings \<noteq> []" using assms(1) by auto
  show ?thesis
    using ne assms(1)
    by (simp add: get_moving_average_def l s b sum_list_replicate)
qed

lemma scenario_all_lost:
  assumes "length pings = 10"
    and "\<forall>ping\<in>set pings. ping P = NoReply \<or> ping P = PingRaised"
    and "buffer (loss pb) = last_n 10 (map (\<lambda>ping. loss_sample (ping P)) pings)"
    and "buffer (rtt pb) = last_n 10 (concat (map (\<lambda>ping. rtt_samples (ping P)) pings))"
  shows "get_moving_average (rtt pb) = None
       \<and> (case get_moving_average (loss pb) of None \<Rightarrow> 0 | Some l \<Rightarrow> l) = 1"
proof -
  have a: "\<forall>ping\<in>set pings. ping P = Reply 0 \<or> ping P = NoReply \<or> ping P = PingRaised"
    using assms(2) by blast
  have f: "filter (\<lambda>ping. ping P = Reply 0) pings = []"
    using assms(2) by (auto simp: filter_empty_conv)
  from scenario_loss_sum[OF a] assms(1)
  have s: "sum_list (map (\<lambda>ping. loss_sample (ping P)) pings) = 10" by (simp add: f)
  have l: "buffer (loss pb) = map (\<lambda>ping. loss_sample (ping P)) pings"
    using assms(3,1) by (simp add: last_n_def)
  from scenario_rtt_samples[OF a]
  have r: "concat (map (\<lambda>ping. rtt_samples (ping P)) pings) = []" by (simp add: f)
  have b: "buffer (rtt pb) = []"
    using assms(4) unfolding r by (simp add: last_n_def)
  have ne: "pings \<noteq> []" using assms(1) by auto
  show ?thesis
    using ne assms(1)
    by (simp add: get_moving_average_def l s b)
qed

text \<open>
  The buffers after any sequence of probe cycles, from a freshly constructed prober with
  distinct peers. For every peer \<open>P\<close> the loss buffer holds the last \<open>W\<close> of the loss samples,
  one sample per cycle (0 for a reply and for an error return, 1 for a timeout and for an
  exception), and the RTT buffer holds the last \<open>W\<close> of the RTT samples (the time of a reply
  in milliseconds, 0 for an error return, nothing for a timeout or an exception). When no
  round-trip time is negative, the smoothed metrics are produced; with \<open>W = 10\<close>, after ten
  cycles of which seven are answered after 50 ms and three time out or raise, the smoothed
  metric of \<open>P\<close> has \<open>rtt_ms = 50\<close> and \<open>loss_rate = 3/10\<close>; after ten cycles that time out or
  raise it has no \<open>rtt_ms\<close> and \<open>loss_rate = 1\<close>.
\<close>

lemma probe_cycles_buffers:
  assumes "Prober_init peers iv tmo W = Inr pr0" and "distinct peers" and "P \<in> set peers"
  shows "\<exists>pr pb. probe_cycles pings pr0 = Inr pr \<and> map_of (buffers pr) P = Some pb
      \<and> buffer (loss pb) = last_n (nat W) (map (\<lambda>ping. loss_sample (ping P)) pings)
      \<and> buffer (rtt pb) = last_n (nat W) (concat (map (\<lambda>ping. rtt_samples (ping P)) pings))
      \<and> ((\<forall>ping\<in>set pings. nonneg_replies ping) \<longrightarrow>
           (\<exists>ms. get_smoothed_metrics pr = Inr ms
              \<and> (W = 10 \<and> length pings = 10
                   \<and> length (filter (\<lambda>ping. ping P = Reply (1 / 20)) pings) = 7
                   \<and> (\<forall>ping\<in>set pings.
                          ping P = Reply (1 / 20) \<or> ping P = NoReply \<or> ping P = PingRaised)
                  \<longrightarrow> \<lparr>target_ip = P, rtt_ms = Some 50, loss_rate = 3 / 10\<rparr> \<in> set ms)
              \<and> (W = 10 \<and> length pings = 10
                   \<and> (\<forall>ping\<in>set pings. ping P = NoReply \<or> ping P = PingRaised)
                  \<longrightarrow> \<lparr>target_ip = P, rtt_ms = None, loss_rate = 1\<rparr> \<in> set ms)))"
proof -
  let ?fresh = "\<lparr>rtt = \<lparr>maxlen = W, buffer = []\<rparr>, loss = \<lparr>maxlen = W, buffer = []\<rparr>\<rparr>"
  from Prober_init_buffers[OF assms(1,3)]
  have ips: "peer_ips pr0 = peers" and w: "0 < W"
    and fresh: "\<forall>p\<in>set peers. map_of (buffers pr0) p = Some ?fresh"
    by simp_all
  have a1: "distinct (peer_ips pr0)" using assms(2) ips by simp
  have a2: "\<forall>p\<in>set (peer_ips pr0). \<exists>pb. map_of (buffers pr0) p = Some pb \<and> True"
    using fresh ips by simp
  have a2s: "\<forall>p\<in>set (peer_ips pr0). \<exists>pb. map_of (buffers pr0) p = Some pb \<and> sane pb"
    using fresh ips by (simp add: sane_def)
  have a3: "P \<in> set (peer_ips pr0)" using assms(3) ips by simp
  have a4: "map_of (buffers pr0) P = Some ?fresh" using fresh assms(3) by simp
  have a5: "tracks (nat W) [] [] ?fresh" using w by (simp add: tracks_def last_n_def)
  have a6: "0 < nat W" using w by simp
  have a7: "\<forall>ping\<in>set pings. \<forall>qb p. True \<longrightarrow> True" by simp
  from probe_cycles_tracks[where I = "\<lambda>pb. True", OF a1 a2 a3 a4 a5 a6 a7]
  obtain pr pb where pr: "probe_cycles pings pr0 = Inr pr" "peer_ips pr = peer_ips pr0"
    "map_of (buffers pr) P = Some pb"
    "tracks (nat W) (concat (map (\<lambda>ping. rtt_samples (ping P)) pings))
        (map (\<lambda>ping. loss_sample (ping P)) pings) pb"
    by auto
  from pr(4) have bl: "buffer (loss pb) = last_n (nat W) (map (\<lambda>ping. loss_sample (ping P)) pings)"
    and br: "buffer (rtt pb) = last_n (nat W) (concat (map (\<lambda>ping. rtt_samples (ping P)) pings))"
    by (simp_all add: tracks_def)
  have smooth: "\<exists>ms. get_smoothed_metrics pr = Inr ms
              \<and> (W = 10 \<and> length pings = 10
                   \<and> length (filter (\<lambda>ping. ping P = Reply (1 / 20)) pings) = 7
                   \<and> (\<forall>ping\<in>set pings.
                          ping P = Reply (1 / 20) \<or> ping P = NoReply \<or> ping P = PingRaised)
                  \<longrightarrow> \<lparr>target_ip = P, rtt_ms = Some 50, loss_rate = 3 / 10\<rparr> \<in> set ms)
              \<and> (W = 10 \<and> length pings = 10
                   \<and> (\<forall>ping\<in>set pings. ping P = NoReply \<or> ping P = PingRaised)
                  \<longrightarrow> \<lparr>target_ip = P, rtt_ms = None, loss_rate = 1\<rparr> \<in> set ms)"
    if nn: "\<forall>ping\<in>set pings. nonneg_replies ping"
  proof -
    have a7s: "\<forall>ping\<in>set pings. \<forall>qb p. sane qb \<longrightarrow> sane (record_result qb (probe_once ping p))"
      using nn record_result_sane by blast
    from probe_cycles_tracks[where I = sane, OF a1 a2s a3 a4 a5 a6 a7s] pr(1)
    have "\<forall>p\<in>set (peer_ips pr0). \<exists>pb. map_of (buffers pr) p = Some pb \<and> sane pb"
      by auto
    then have "\<forall>p\<in>set (peer_ips pr). \<exists>pb. map_of (buffers pr) p = Some pb \<and> sane pb"
      using pr(2) by simp
    from smoothed_from_sane[OF this, of "[]"]
    obtain ms where ms: "get_smoothed_metrics pr = Inr ms"
      "\<forall>p\<in>set (peer_ips pr). \<forall>pb. map_of (buffers pr) p = Some pb \<longrightarrow>
                 \<lparr>target_ip = p, rtt_ms = get_moving_average (rtt pb),
                  loss_rate = (case get_moving_average (loss pb) of None \<Rightarrow> 0 | Some l \<Rightarrow> l)\<rparr>
                   \<in> set ms"
      unfolding get_smoothed_metrics_def by blast
    have mP: "\<lparr>target_ip = P, rtt_ms = get_moving_average (rtt pb),
             loss_rate = (case get_moving_average (loss pb) of None \<Rightarrow> 0 | Some l \<Rightarrow> l)\<rparr> \<in> set ms"
      using ms(2) pr(2,3) a3 by simp
    have s1: "W = 10 \<and> length pings = 10
           \<and> length (filter (\<lambda>ping. ping P = Reply (1 / 20)) pings) = 7
           \<and> (\<forall>ping\<in>set pings. ping P = Reply (1 / 20) \<or> ping P = NoReply \<or> ping P = PingRaised)
          \<longrightarrow> \<lparr>target_ip = P, rtt_ms = Some 50, loss_rate = 3 / 10\<rparr> \<in> set ms"
    proof (intro impI, elim conjE)
      assume h: "W = 10" "length pings = 10"
        "length (filter (\<lambda>ping. ping P = Reply (1 / 20)) pings) = 7"
        "\<forall>ping\<in>set pings. ping P = Reply (1 / 20) \<or> ping P = NoReply \<or> ping P = PingRaised"
      from bl br h(1) have "buffer (loss pb) = last_n 10 (map (\<lambda>ping. loss_sample (ping P)) pings)"
        "buffer (rtt pb) = last_n 10 (concat (map (\<lambda>ping. rtt_samples (ping P)) pings))"
        by simp_all
      from scenario_seven_of_ten[OF h(2,3,4) this]
      have "get_moving_average (rtt pb) = Some 50"
        "(case get_moving_average (loss pb) of None \<Rightarrow> 0 | Some l \<Rightarrow> l) = 3 / 10"
        by blast+
      with mP show "\<lparr>target_ip = P, rtt_ms = Some 50, loss_rate = 3 / 10\<rparr> \<in> set ms"
        by (simp only:)
    qed
    have s2: "W = 10 \<and> length pings = 10
           \<and> (\<forall>ping\<in>set pings. ping P = NoReply \<or> ping P = PingRaised)
          \<longrightarrow> \<lparr>target_ip = P, rtt_ms = None, loss_rate = 1\<rparr> \<in> set ms"
    proof (intro impI, elim conjE)
      assume h: "W = 10" "length pings = 10"
        "\<forall>ping\<in>set pings. ping P = NoReply \<or> ping P = PingRaised"
      from bl br h(1) have "buffer (loss pb) = last_n 10 (map (\<lambda>ping. loss_sample (ping P)) pings)"
        "buffer (rtt pb) = last_n 10 (concat (map (\<lambda>ping. rtt_samples (ping P)) pings))"
        by simp_all
      from scenario_all_lost[OF h(2,3) this]
      have "get_moving_average (rtt pb) = None"
        "(case get_moving_average (loss pb) of None \<Rightarrow> 0 | Some l \<Rightarrow> l) = 1"
        by blast+
      with mP show "\<lparr>target_ip = P, rtt_ms = None, loss_rate = 1\<rparr> \<in> set ms"
        by (simp only:)
    qed
    from ms(1) s1 s2 show ?thesis by blast
  qed
  from pr(1,3) bl br smooth show ?thesis by blast
qed

lemma probe_cycles_buffers_example:
  "distinct [''10.254.0.2''] \<and> nonneg_replies ping_ok \<and> nonneg_replies ping_lost
   \<and> length pings_example = 10
   \<and> length (filter (\<lambda>ping. ping ''10.254.0.2'' = Reply (1 / 20)) pings_example) = 7
   \<and> (\<exists>pr0 pr ms. Prober_init [''10.254.0.2''] 5 2 10 = Inr pr0
        \<and> probe_cycles pings_example pr0 = Inr pr
        \<and> get_smoothed_metrics pr = Inr ms
        \<and> \<lparr>target_ip = ''10.254.0.2'', rtt_ms = Some 50, loss_rate = 3 / 10\<rparr> \<in> set ms)"
proof -
  obtain pr0 where i: "Prober_init [''10.254.0.2''] 5 2 10 = Inr pr0"
    by (simp add: Prober_init_def SlidingWindowBuffer_init_def)
  have d: "distinct [''10.254.0.2'']" by simp
  have m: "''10.254.0.2'' \<in> set [''10.254.0.2'']" by simp
  have n1: "nonneg_replies ping_ok" by (simp add: nonneg_replies_def ping_ok_def)
  have n2: "nonneg_replies ping_lost" by (simp add: nonneg_replies_def ping_lost_def)
  have n: "\<forall>ping\<in>set pings_example. nonneg_replies ping"
    using n1 n2 by (simp add: pings_example_def)
  have l: "length pings_example = 10" by (simp add: pings_example_def)
  have f: "length (filter (\<lambda>ping. ping ''10.254.0.2'' = Reply (1 / 20)) pings_example) = 7"
    by (simp add: pings_example_def ping_ok_def ping_lost_def)
  have k: "\<forall>ping\<in>set pings_example. ping ''10.254.0.2'' = Reply (1 / 20)
       \<or> ping ''10.254.0.2'' = NoReply \<or> ping ''10.254.0.2'' = PingRaised"
    by (simp add: pings_example_def ping_ok_def ping_lost_def)
  from probe_cycles_buffers[OF i d m, of pings_example] n l f k
  have "\<exists>pr ms. probe_cycles pings_example pr0 = Inr pr \<and> get_smoothed_metrics pr = Inr ms
        \<and> \<lparr>target_ip = ''10.254.0.2'', rtt_ms = Some 50, loss_rate = 3 / 10\<rparr> \<in> set ms"
    by blast
  with i d n1 n2 l f show ?thesis by blast
qed

text \<open>
  C4 does not hold of the code when \<open>ping3.ping\<close> reports an error by returning \<open>False\<close>.
  A probe that times out gives no RTT and loss 1. A probe that ends in such an error is not
  a success, but \<open>probe_once\<close> tests its result against \<open>None\<close> only: the probe gives the RTT
  \<open>False * 1000 = 0\<close> and loss 0. With one peer and window 10, ten such probe cycles leave
  ten zeros in the RTT buffer and ten zeros in the loss buffer, and the smoothed metric of
  the peer has \<open>rtt_ms = 0\<close> and \<open>loss_rate = 0\<close>: a peer that cannot be reached is reported
  as a perfect link.
\<close>

theorem error_return_recorded_as_reply:
  "probe_once ping_lost ''10.254.0.2''
     = \<lparr>target = ''10.254.0.2'', result_rtt_ms = None, result_loss = 1\<rparr>
   \<and> probe_once ping_error ''10.254.0.2''
     = \<lparr>target = ''10.254.0.2'', result_rtt_ms = Some 0, result_loss = 0\<rparr>
   \<and> Prober_init [''10.254.0.2''] 5 2 10 = Inr prober_fresh
   \<and> probe_cycles (replicate 10 ping_error) prober_fresh = Inr prober_after_errors
   \<and> map_of (buffers prober_after_errors) ''10.254.0.2''
     = Some \<lparr>rtt = \<lparr>maxlen = 10, buffer = [0, 0, 0, 0, 0, 0, 0, 0, 0, 0]\<rparr>,
             loss = \<lparr>maxlen = 10, buffer = [0, 0, 0, 0, 0, 0, 0, 0, 0, 0]\<rparr>\<rparr>
   \<and> get_smoothed_metrics prober_after_errors
     = Inr [\<lparr>target_ip = ''10.254.0.2'', rtt_ms = Some 0, loss_rate = 0\<rparr>]"
  by code_simp

section \<open>Rounding\<close>

lemma int_pow_bounds:
  fixes m :: int
  assumes "0 < m"
  shows "(2::rat) powi (bitlen m - 1) \<le> of_int m \<and> of_int m < (2::rat) powi (bitlen m)"
proof -
  from bitlen_bounds[OF assms] have b: "2 ^ nat (bitlen m - 1) \<le> m" "m < 2 ^ nat (bitlen m)"
    by simp_all
  have ge1: "1 \<le> bitlen m" using assms by (simp add: bitlen_alt_def)
  have "(of_int (2 ^ nat (bitlen m - 1)) :: rat) \<le> of_int m" using b(1) by (simp only: of_int_le_iff)
  moreover have "(of_int m :: rat) < of_int (2 ^ nat (bitlen m))" using b(2) by (simp only: of_int_less_iff)
  ultimately show ?thesis using ge1 by (simp add: power_int_def)
qed

lemma ilog2_bounds:
  assumes "0 < a"
  shows "2 powi (ilog2 a) \<le> a \<and> a < 2 powi (ilog2 a + 1)"
proof -
  obtain p q where pq: "quotient_of a = (p, q)" by (cases "quotient_of a")
  have q: "0 < q" using quotient_of_denom_pos[OF pq] .
  have a: "a = of_int p / of_int q" using quotient_of_div[OF pq] .
  have p: "0 < p" using assms q unfolding a by (simp add: zero_less_divide_iff)
  note bp = int_pow_bounds[OF p]
  note bq = int_pow_bounds[OF q]
  define e0 where "e0 = bitlen p - bitlen q"
  have qpos: "(0::rat) < of_int q" using q by simp
  have lo: "2 powi (e0 - 1) \<le> a"
  proof -
    have "(2::rat) powi (e0 - 1) = 2 powi (bitlen p - 1) / 2 powi (bitlen q)"
      by (simp add: e0_def power_int_diff)
    also have "\<dots> \<le> of_int p / 2 powi (bitlen q)"
      using bp by (simp add: divide_right_mono)
    also have "\<dots> \<le> of_int p / of_int q"
      using bq p qpos by (intro divide_left_mono) (auto simp: less_imp_le)
    finally show ?thesis unfolding a .
  qed
  have hi: "a < 2 powi (e0 + 1)"
  proof -
    have "of_int p / of_int q < (2::rat) powi (bitlen p) / of_int q"
      using bp qpos by (simp add: divide_strict_right_mono)
    also have "\<dots> \<le> 2 powi (bitlen p) / 2 powi (bitlen q - 1)"
      using bq qpos by (intro divide_left_mono) (auto intro!: mult_pos_pos)
    also have "\<dots> = 2 powi (e0 + 1)"
    proof -
      have "e0 + 1 = bitlen p - (bitlen q - 1)" by (simp add: e0_def)
      then show ?thesis by (simp only: power_int_diff[of "2::rat", simplified])
    qed
    finally show ?thesis unfolding a .
  qed
  show ?thesis
  proof (cases "(2::rat) powi e0 \<le> a")
    case True
    then have "ilog2 a = e0" by (simp add: ilog2_def pq e0_def Let_def)
    with True hi show ?thesis by simp
  next
    case False
    then have "ilog2 a = e0 - 1" by (simp add: ilog2_def pq e0_def Let_def)
    with False lo show ?thesis by simp
  qed
qed

lemma round_half_even_ge: "\<lfloor>q\<rfloor> \<le> round_half_even q"
  by (simp add: round_half_even_def Let_def)

lemma round_double_positive:
  assumes "1 / 2 ^ 53 \<le> a"
  shows "(\<exists>y. round_double a = Fin y \<and> 0 < y) \<or> round_double a = PInf"
proof -
  have apos: "0 < a" by (rule less_le_trans[OF _ assms]) simp
  define e where "e = max (ilog2 a) (- 1022)"
  define ulp where "ulp = (2::rat) powi (e - 52)"
  define y where "y = of_int (round_half_even (a / ulp)) * ulp"
  have upos: "0 < ulp" by (simp add: ulp_def)
  have "ulp \<le> a"
  proof (cases "- 1022 \<le> ilog2 a")
    case True
    then have "e = ilog2 a" by (simp add: e_def)
    then have "ulp \<le> 2 powi (ilog2 a)"
      unfolding ulp_def by (simp add: power_int_increasing)
    also have "\<dots> \<le> a" using ilog2_bounds[OF apos] by simp
    finally show ?thesis .
  next
    case False
    then have "e = - 1022" by (simp add: e_def)
    then have "ulp = 2 powi (- 1074)" by (simp add: ulp_def)
    also have "\<dots> \<le> 2 powi (- 53)" by (rule power_int_increasing) simp_all
    also have "\<dots> = 1 / 2 ^ 53" by (simp add: power_int_def inverse_eq_divide power_one_over)
    finally show ?thesis using assms by simp
  qed
  then have "1 \<le> a / ulp" using upos by (simp add: le_divide_eq)
  then have "1 \<le> \<lfloor>a / ulp\<rfloor>" by (simp add: le_floor_iff)
  then have "1 \<le> round_half_even (a / ulp)" using round_half_even_ge[of "a / ulp"] by linarith
  then have ypos: "0 < y" using upos by (simp add: y_def)
  have "round_double a = (if y \<ge> 2 powi 1024 then PInf else Fin y)"
    using apos by (simp add: round_double_def Let_def e_def ulp_def y_def)
  with ypos show ?thesis by auto
qed


lemma ilog2_half_to_one:
  assumes "1 / 2 \<le> a" and "a < 1"
  shows "ilog2 a = - 1"
proof -
  have apos: "0 < a" using assms(1) by simp
  from ilog2_bounds[OF apos] have lo: "2 powi (ilog2 a) \<le> a" and hi: "a < 2 powi (ilog2 a + 1)"
    by simp_all
  have "ilog2 a < 0"
  proof (rule ccontr)
    assume "\<not> ilog2 a < 0"
    then have "0 \<le> ilog2 a" by simp
    then have "(1::rat) \<le> 2 powi (ilog2 a)" by simp
    with lo assms(2) show False by simp
  qed
  moreover have "- 2 < ilog2 a"
  proof (rule ccontr)
    assume "\<not> - 2 < ilog2 a"
    then have "ilog2 a + 1 \<le> - 1" by simp
    then have "(2::rat) powi (ilog2 a + 1) \<le> 2 powi (- 1)"
      by (intro power_int_increasing) simp_all
    also have "\<dots> = 1 / 2" by (simp add: power_int_def inverse_eq_divide)
    finally show False using hi assms(1) by simp
  qed
  ultimately show ?thesis by simp
qed

lemma double_below_one:
  assumes "round_double h = Fin h" and "h < 1"
  shows "1 / 2 ^ 53 \<le> 1 - h"
proof (cases "h < 1 / 2")
  case True
  have "(1::rat) / 2 ^ 53 \<le> 1 / 2" by simp
  with True show ?thesis by linarith
next
  case False
  then have h: "1 / 2 \<le> h" by simp
  then have hpos: "0 < h" by simp
  have e: "ilog2 h = - 1" by (rule ilog2_half_to_one[OF h assms(2)])
  define n where "n = round_half_even (h / 2 powi (- 53))"
  have u: "(2::rat) powi (- 53) = 1 / 2 ^ 53"
    by (simp add: power_int_def inverse_eq_divide power_one_over)
  have "round_double h =
      (if of_int n * 2 powi (- 53) \<ge> (2::rat) powi 1024 then PInf else Fin (of_int n * 2 powi (- 53)))"
    using hpos by (simp add: round_double_def Let_def e n_def)
  with assms(1) have "h = of_int n * 2 powi (- 53)"
    by (auto split: if_splits)
  then have hn: "h = of_int n / 2 ^ 53" by (simp add: u)
  with assms(2) have "(of_int n :: rat) < 2 ^ 53" by (simp add: divide_less_eq)
  then have "(of_int n :: rat) < of_int (2 ^ 53)" by simp
  then have "n < 2 ^ 53" by (simp only: of_int_less_iff)
  then have "n \<le> 2 ^ 53 - 1" by simp
  then have "(of_int n :: rat) \<le> of_int (2 ^ 53 - 1)" by (simp only: of_int_le_iff)
  then have "(of_int n :: rat) \<le> 2 ^ 53 - 1" by simp
  then have "h \<le> (2 ^ 53 - 1) / 2 ^ 53" unfolding hn by (simp add: divide_right_mono)
  also have "\<dots> = 1 - 1 / 2 ^ 53" by (simp add: diff_divide_distrib)
  finally show ?thesis by simp
qed

lemma one_minus_double_positive:
  assumes "round_double h = Fin h" and "h < 1"
  shows "(\<exists>y. round_double (1 - h) = Fin y \<and> 0 < y) \<or> round_double (1 - h) = PInf"
  by (rule round_double_positive[OF double_below_one[OF assms]])

lemma ilog2_eq:
  assumes "2 powi e \<le> a" and "a < 2 powi (e + 1)"
  shows "ilog2 a = e"
proof -
  have apos: "0 < a" by (rule less_le_trans[OF _ assms(1)]) simp
  from ilog2_bounds[OF apos] have lo: "2 powi (ilog2 a) \<le> a" and hi: "a < 2 powi (ilog2 a + 1)"
    by simp_all
  have "\<not> ilog2 a < e"
  proof
    assume "ilog2 a < e"
    then have "ilog2 a + 1 \<le> e" by simp
    then have "(2::rat) powi (ilog2 a + 1) \<le> 2 powi e" by (intro power_int_increasing) simp_all
    with hi assms(1) show False by simp
  qed
  moreover have "\<not> e < ilog2 a"
  proof
    assume "e < ilog2 a"
    then have "e + 1 \<le> ilog2 a" by simp
    then have "(2::rat) powi (e + 1) \<le> 2 powi (ilog2 a)" by (intro power_int_increasing) simp_all
    with lo assms(2) show False by simp
  qed
  ultimately show ?thesis by simp
qed

lemma round_half_even_le: "of_int (round_half_even q) \<le> q + 1"
proof -
  have "round_half_even q \<le> \<lfloor>q\<rfloor> + 1" by (simp add: round_half_even_def Let_def)
  then have "(of_int (round_half_even q) :: rat) \<le> of_int (\<lfloor>q\<rfloor> + 1)" by (simp only: of_int_le_iff)
  also have "\<dots> \<le> q + 1" by simp
  finally show ?thesis .
qed

lemma round_double_normal:
  assumes "2 powi e \<le> x" and "x < 2 powi (e + 1)" and "- 1022 \<le> e" and "e \<le> 1022"
  shows "round_double x = Fin (of_int (round_half_even (x / 2 powi (e - 52))) * 2 powi (e - 52))"
proof -
  have xpos: "0 < x" by (rule less_le_trans[OF _ assms(1)]) simp
  define ulp where "ulp = (2::rat) powi (e - 52)"
  define y where "y = of_int (round_half_even (x / ulp)) * ulp"
  have upos: "0 < ulp" by (simp add: ulp_def)
  have il: "ilog2 x = e" by (rule ilog2_eq[OF assms(1,2)])
  have "of_int (round_half_even (x / ulp)) \<le> x / ulp + 1" by (rule round_half_even_le)
  then have "y \<le> (x / ulp + 1) * ulp" unfolding y_def using upos by (simp add: mult_right_mono)
  also have "\<dots> = x + ulp" using upos by (simp add: field_simps)
  also have "\<dots> < 2 powi (e + 1) + 2 powi (e + 1)"
  proof -
    have "ulp \<le> 2 powi (e + 1)" unfolding ulp_def by (rule power_int_increasing) simp_all
    with assms(2) show ?thesis by simp
  qed
  also have "\<dots> = 2 powi (e + 2)"
  proof -
    have "(2::rat) powi (e + 2) = 2 powi (e + 1) * 2"
      using power_int_add[of "2::rat" "e + 1" 1] by (simp add: add.commute)
    then show ?thesis by simp
  qed
  also have "\<dots> \<le> 2 powi 1024" using assms(4) by (intro power_int_increasing) simp_all
  finally have "y < 2 powi 1024" .
  then show ?thesis
    using xpos il assms(3) by (simp add: round_double_def Let_def ulp_def y_def not_le[symmetric])
qed

lemma floor_rat_numeral:
  "\<lfloor>(numeral a :: rat) / numeral b\<rfloor> = numeral a div numeral b"
  using floor_divide_of_int_eq[of "numeral a" "numeral b", where ?'a = rat] by simp

lemmas rd_eval = round_half_even_def Let_def power_int_def power_divide floor_rat_numeral

lemma round_0_15:
  "round_double (15 / 100) = Fin (5404319552844595 / 36028797018963968)"
  using round_double_normal[of "- 3" "15 / 100"] by (simp add: rd_eval)

lemma round_h0:
  "round_double (5404319552844595 / 36028797018963968) = Fin (5404319552844595 / 36028797018963968)"
  using round_double_normal[of "- 3" "5404319552844595 / 36028797018963968"] by (simp add: rd_eval)








section \<open>The solver's routes\<close>

lemma add_node_distinct: "distinct (nodes G) \<Longrightarrow> distinct (nodes (add_node G n))"
  by (simp add: add_node_def)

lemma add_edge_distinct: "distinct (nodes G) \<Longrightarrow> distinct (nodes (add_edge G u v w))"
  by (simp add: add_edge_def Let_def add_node_distinct)

lemma foldl_add_node_distinct:
  "distinct (nodes G) \<Longrightarrow> distinct (nodes (foldl add_node G ns))"
  by (induction ns arbitrary: G) (simp_all add: add_node_distinct)

lemma foldl_add_metric_edge_distinct:
  "distinct (nodes G) \<Longrightarrow> distinct (nodes (foldl (add_metric_edge solver source) G ms))"
  by (induction ms arbitrary: G)
    (simp_all add: add_metric_edge_def add_edge_distinct split: prod.splits)

lemma foldl_entries_distinct:
  "distinct (nodes G) \<Longrightarrow>
   distinct (nodes (foldl (\<lambda>G (source, data).
       foldl (add_metric_edge solver source) G (metrics data)) G topo))"
  by (induction topo arbitrary: G)
    (simp_all add: foldl_add_metric_edge_distinct split: prod.splits)

lemma build_graph_distinct: "distinct (nodes (build_graph solver topo))"
  by (simp add: build_graph_def Let_def foldl_entries_distinct foldl_add_node_distinct
      empty_graph_def)

lemma history_get_update:
  "history_get (AList.update k v al) k' = (if k' = k then v else history_get al k')"
  by (simp add: history_get_def update_conv')

lemma path_length:
  assumes "path_endpoints sp" and "sp G s t = Inr p" and "t \<noteq> s"
  shows "2 \<le> length p"
proof -
  from assms(1,2) have p: "p \<noteq> []" "hd p = s" "last p = t"
    by (auto simp: path_endpoints_def)
  then obtain x xs where "p = x # xs" by (cases p) auto
  with p assms(3) show ?thesis by (cases xs) auto
qed

lemma route_for_target_frame:
  assumes "route_for_target sp spl s G S T = (out, s')"
  shows "hysteresis s' = hysteresis s \<and> penalty_factor s' = penalty_factor s
       \<and> (\<forall>k. k \<noteq> (S, T) \<longrightarrow> history_get (previous_costs s') k = history_get (previous_costs s) k)"
  using assms
  by (auto simp: route_for_target_def Let_def history_get_update
      split: if_splits sum.splits)

lemma route_for_target_source: "route_for_target sp spl s G S S = (Skip, s)"
  by (simp add: route_for_target_def)

lemma route_for_target_cases:
  assumes "path_endpoints sp" and "T \<noteq> S"
  shows "route_for_target sp spl s G S T =
     (case (sp G S T, spl G S T) of
        (Inr p, Inr c) \<Rightarrow>
          if c \<noteq> PInf \<and> fl_less c (fl_mul (history_get (previous_costs s) (S, T))
                                        (fl_sub (Fin 1) (hysteresis s)))
          then (Emit \<lparr>dst_cidr = T @ ''/32'',
                      next_hop = (if length p = 2 then ''direct'' else p ! 1),
                      reason = (if length p = 2 then ''default'' else ''optimized_path'')\<rparr>,
                s\<lparr>previous_costs := AList.update (S, T) c (previous_costs s)\<rparr>)
          else (Skip, s)
      | _ \<Rightarrow> (Skip, s))"
proof (cases "sp G S T")
  case (Inl e)
  then show ?thesis using assms(2) by (simp add: route_for_target_def)
next
  case (Inr p)
  from path_length[OF assms(1) Inr assms(2)] have l: "2 \<le> length p" .
  show ?thesis
  proof (cases "spl G S T")
    case (Inl e)
    then show ?thesis using assms(2) Inr by (simp add: route_for_target_def)
  next
    case c: (Inr c)
    show ?thesis
      using assms(2) Inr c l
      by (auto simp: route_for_target_def Let_def)
  qed
qed


lemma route_for_target_cong:
  assumes "path_endpoints sp" and "hysteresis s1 = hysteresis s2"
    and "history_get (previous_costs s1) (S, T) = history_get (previous_costs s2) (S, T)"
  shows "fst (route_for_target sp spl s1 G S T) = fst (route_for_target sp spl s2 G S T)
       \<and> history_get (previous_costs (snd (route_for_target sp spl s1 G S T))) (S, T)
         = history_get (previous_costs (snd (route_for_target sp spl s2 G S T))) (S, T)"
proof (cases "T = S")
  case True
  then show ?thesis using assms(3) by (simp add: route_for_target_source)
next
  case False
  show ?thesis
    unfolding route_for_target_cases[OF assms(1) False]
    using assms(2,3)
    by (simp add: history_get_update split: sum.splits)
qed

lemma route_for_target_no_raise:
  assumes "path_endpoints sp"
  shows "fst (route_for_target sp spl s G S T) \<noteq> Raise e"
proof (cases "T = S")
  case True
  then show ?thesis by (simp add: route_for_target_source)
next
  case False
  show ?thesis
    unfolding route_for_target_cases[OF assms False]
    by (simp split: sum.splits)
qed

lemma routes_loop_char:
  assumes "path_endpoints sp" and "distinct ts"
  shows "\<exists>s'. routes_loop sp spl G S ts routes s =
            (Inr (routes @ concat (map (\<lambda>T. emitted (fst (route_for_target sp spl s G S T))) ts)), s')
         \<and> hysteresis s' = hysteresis s
         \<and> (\<forall>T. history_get (previous_costs s') (S, T) =
               (if T \<in> set ts
                then history_get (previous_costs (snd (route_for_target sp spl s G S T))) (S, T)
                else history_get (previous_costs s) (S, T)))"
  using assms(2)
proof (induction ts arbitrary: routes s)
  case Nil
  then show ?case by simp
next
  case (Cons T ts)
  obtain out s1 where o: "route_for_target sp spl s G S T = (out, s1)"
    by (cases "route_for_target sp spl s G S T")
  from route_for_target_frame[OF o]
  have h1: "hysteresis s1 = hysteresis s"
    and fr: "\<forall>k. k \<noteq> (S, T) \<longrightarrow> history_get (previous_costs s1) k = history_get (previous_costs s) k"
    by simp_all
  from Cons.prems have d: "distinct ts" and nT: "T \<notin> set ts" by simp_all
  have nr: "\<And>e. out \<noteq> Raise e"
    using route_for_target_no_raise[OF assms(1), of spl s G S T] o by simp
  have step: "routes_loop sp spl G S (T # ts) routes s
      = routes_loop sp spl G S ts (routes @ emitted out) s1"
  proof (cases out)
    case Skip
    then show ?thesis using o by (simp add: emitted_def)
  next
    case (Emit r)
    then show ?thesis using o by (simp add: emitted_def)
  next
    case (Raise e)
    then show ?thesis using nr by blast
  qed
  from Cons.IH[OF d, of "routes @ emitted out" s1]
  obtain s' where s': "routes_loop sp spl G S ts (routes @ emitted out) s1 =
            (Inr ((routes @ emitted out)
                 @ concat (map (\<lambda>T. emitted (fst (route_for_target sp spl s1 G S T))) ts)), s')"
    "hysteresis s' = hysteresis s1"
    "\<forall>U. history_get (previous_costs s') (S, U) =
               (if U \<in> set ts
                then history_get (previous_costs (snd (route_for_target sp spl s1 G S U))) (S, U)
                else history_get (previous_costs s1) (S, U))"
    by blast
  have cong: "\<And>U. U \<in> set ts \<Longrightarrow>
      fst (route_for_target sp spl s1 G S U) = fst (route_for_target sp spl s G S U)
      \<and> history_get (previous_costs (snd (route_for_target sp spl s1 G S U))) (S, U)
         = history_get (previous_costs (snd (route_for_target sp spl s G S U))) (S, U)"
  proof -
    fix U assume "U \<in> set ts"
    then have "U \<noteq> T" using nT by auto
    then have "history_get (previous_costs s1) (S, U) = history_get (previous_costs s) (S, U)"
      using fr by simp
    from route_for_target_cong[OF assms(1) h1 this]
    show "fst (route_for_target sp spl s1 G S U) = fst (route_for_target sp spl s G S U)
      \<and> history_get (previous_costs (snd (route_for_target sp spl s1 G S U))) (S, U)
         = history_get (previous_costs (snd (route_for_target sp spl s G S U))) (S, U)" .
  qed
  have m: "map (\<lambda>T. emitted (fst (route_for_target sp spl s1 G S T))) ts
      = map (\<lambda>T. emitted (fst (route_for_target sp spl s G S T))) ts"
    using cong by simp
  have r: "routes_loop sp spl G S (T # ts) routes s =
      (Inr (routes @ concat (map (\<lambda>T. emitted (fst (route_for_target sp spl s G S T))) (T # ts))), s')"
    unfolding step s'(1) m using o by simp
  have hist: "\<forall>U. history_get (previous_costs s') (S, U) =
               (if U \<in> set (T # ts)
                then history_get (previous_costs (snd (route_for_target sp spl s G S U))) (S, U)
                else history_get (previous_costs s) (S, U))"
  proof
    fix U
    show "history_get (previous_costs s') (S, U) =
               (if U \<in> set (T # ts)
                then history_get (previous_costs (snd (route_for_target sp spl s G S U))) (S, U)
                else history_get (previous_costs s) (S, U))"
    proof (cases "U \<in> set ts")
      case True
      then show ?thesis using s'(3) cong by simp
    next
      case False
      show ?thesis
      proof (cases "U = T")
        case True
        then show ?thesis using s'(3) nT o by simp
      next
        case F: False
        then show ?thesis using s'(3) False fr by simp
      qed
    qed
  qed
  from r hist s'(2) h1 show ?case by auto
qed


lemma compute_routes_for_char:
  assumes "path_endpoints sp" and "G = build_graph solver topo" and "S \<in> set (nodes G)"
  shows "\<exists>solver'. compute_routes_for sp spl solver S topo =
            (Inr (concat (map (\<lambda>T. emitted (fst (route_for_target sp spl solver G S T))) (nodes G))),
             solver')
         \<and> (\<forall>T. history_get (previous_costs solver') (S, T) =
               (if T \<in> set (nodes G)
                then history_get (previous_costs (snd (route_for_target sp spl solver G S T))) (S, T)
                else history_get (previous_costs solver) (S, T)))"
proof -
  have d: "distinct (nodes G)" unfolding assms(2) by (rule build_graph_distinct)
  from routes_loop_char[OF assms(1) d, of spl G S "[]" solver]
  show ?thesis using assms(2,3) by (auto simp: compute_routes_for_def Let_def)
qed

lemma emitted_route:
  assumes "path_endpoints sp" and "r \<in> set (emitted (fst (route_for_target sp spl s G S T)))"
  shows "T \<noteq> S \<and> dst_cidr r = T @ ''/32''
       \<and> (\<exists>p c. sp G S T = Inr p \<and> spl G S T = Inr c \<and> c \<noteq> PInf
              \<and> fl_less c (fl_mul (history_get (previous_costs s) (S, T)) (fl_sub (Fin 1) (hysteresis s)))
              \<and> 2 \<le> length p
              \<and> next_hop r = (if length p = 2 then ''direct'' else p ! 1)
              \<and> reason r = (if length p = 2 then ''default'' else ''optimized_path''))"
proof -
  have ne: "T \<noteq> S"
    using assms(2) by (auto simp: route_for_target_source emitted_def)
  from assms(2) obtain p c where pc: "sp G S T = Inr p" "spl G S T = Inr c"
    unfolding route_for_target_cases[OF assms(1) ne]
    by (auto simp: emitted_def split: sum.splits)
  from path_length[OF assms(1) pc(1) ne] have "2 \<le> length p" .
  with assms(2) pc ne show ?thesis
    unfolding route_for_target_cases[OF assms(1) ne]
    by (auto simp: emitted_def split: if_splits)
qed





lemma threshold_first:
  assumes "round_double h = Fin h" and "h < 1"
  shows "fl_mul PInf (fl_sub (Fin 1) (Fin h)) = PInf"
proof -
  have "fl_sub (Fin 1) (Fin h) = round_double (1 - h)" by (simp add: fl_sub_def)
  with one_minus_double_positive[OF assms] show ?thesis by auto
qed



lemma nodes_relay:
  "nodes (build_graph solver topology_relay) = [''10.254.0.1'', ''10.254.0.3'', ''10.254.0.2'']"
  by (simp add: build_graph_def topology_relay_def add_metric_edge_def add_edge_def add_node_def
      empty_graph_def Let_def)






lemma path_endpoints_relay: "path_endpoints nx_path_relay"
  by (auto simp: path_endpoints_def nx_path_relay_def split: if_splits)



text \<open>
  C8. Let networkx return paths that lead from their source to their target. Then
  \<open>compute_routes_for\<close> returns a route list. The list is empty when the source is no node of
  the graph. Every route of the list is for a node \<open>T\<close> other than the source, so no route
  has the source as its destination; the path to \<open>T\<close> was found with a cost that is not
  infinite; a path of two nodes gives next hop \<open>direct\<close> with reason \<open>default\<close>, and a path of
  three or more nodes gives its second node with reason \<open>optimized_path\<close>.
\<close>

theorem emitted_routes_shape:
  assumes "path_endpoints sp" and "G = build_graph solver topo"
  shows "\<exists>routes solver'. compute_routes_for sp spl solver S topo = (Inr routes, solver')
     \<and> (S \<notin> set (nodes G) \<longrightarrow> routes = [])
     \<and> (\<forall>r\<in>set routes. dst_cidr r \<noteq> S @ ''/32''
          \<and> (\<exists>T p c. T \<in> set (nodes G) \<and> T \<noteq> S \<and> dst_cidr r = T @ ''/32''
               \<and> sp G S T = Inr p \<and> spl G S T = Inr c \<and> c \<noteq> PInf
               \<and> (length p = 2 \<longrightarrow> next_hop r = ''direct'' \<and> reason r = ''default'')
               \<and> (3 \<le> length p \<longrightarrow> next_hop r = p ! 1 \<and> reason r = ''optimized_path'')))"
proof (cases "S \<in> set (nodes G)")
  case False
  then have "compute_routes_for sp spl solver S topo = (Inr [], solver)"
    using assms(2) by (simp add: compute_routes_for_def Let_def)
  with False show ?thesis by simp
next
  case True
  define routes where
    "routes = concat (map (\<lambda>T. emitted (fst (route_for_target sp spl solver G S T))) (nodes G))"
  from compute_routes_for_char[OF assms(1,2) True, of spl]
  obtain solver' where c: "compute_routes_for sp spl solver S topo = (Inr routes, solver')"
    unfolding routes_def by blast
  have "\<forall>r\<in>set routes. dst_cidr r \<noteq> S @ ''/32''
          \<and> (\<exists>T p c. T \<in> set (nodes G) \<and> T \<noteq> S \<and> dst_cidr r = T @ ''/32''
               \<and> sp G S T = Inr p \<and> spl G S T = Inr c \<and> c \<noteq> PInf
               \<and> (length p = 2 \<longrightarrow> next_hop r = ''direct'' \<and> reason r = ''default'')
               \<and> (3 \<le> length p \<longrightarrow> next_hop r = p ! 1 \<and> reason r = ''optimized_path''))"
  proof
    fix r assume "r \<in> set routes"
    then obtain T where T: "T \<in> set (nodes G)"
      "r \<in> set (emitted (fst (route_for_target sp spl solver G S T)))"
      unfolding routes_def by auto
    from emitted_route[OF assms(1) T(2)]
    obtain p c where e: "T \<noteq> S" "dst_cidr r = T @ ''/32''" "sp G S T = Inr p"
      "spl G S T = Inr c" "c \<noteq> PInf"
      "next_hop r = (if length p = 2 then ''direct'' else p ! 1)"
      "reason r = (if length p = 2 then ''default'' else ''optimized_path'')"
      by blast
    have "dst_cidr r \<noteq> S @ ''/32''" using e(1,2) by simp
    moreover have "(length p = 2 \<longrightarrow> next_hop r = ''direct'' \<and> reason r = ''default'')
               \<and> (3 \<le> length p \<longrightarrow> next_hop r = p ! 1 \<and> reason r = ''optimized_path'')"
      using e(6,7) by simp
    ultimately show "dst_cidr r \<noteq> S @ ''/32''
          \<and> (\<exists>T p c. T \<in> set (nodes G) \<and> T \<noteq> S \<and> dst_cidr r = T @ ''/32''
               \<and> sp G S T = Inr p \<and> spl G S T = Inr c \<and> c \<noteq> PInf
               \<and> (length p = 2 \<longrightarrow> next_hop r = ''direct'' \<and> reason r = ''default'')
               \<and> (3 \<le> length p \<longrightarrow> next_hop r = p ! 1 \<and> reason r = ''optimized_path''))"
      using T(1) e(1-5) by blast
  qed
  with c True show ?thesis by blast
qed

lemma compute_relay:
  "fst (compute_routes_for nx_path_relay nx_length_relay solver_default ''10.254.0.1'' topology_relay)
     = Inr [\<lparr>dst_cidr = ''10.254.0.3/32'', next_hop = ''direct'', reason = ''default''\<rparr>,
            \<lparr>dst_cidr = ''10.254.0.2/32'', next_hop = ''10.254.0.3'', reason = ''optimized_path''\<rparr>]"
proof -
  have h: "hysteresis solver_default = Fin (5404319552844595 / 36028797018963968)"
    unfolding solver_default_def RouteSolver_init_def round_0_15 by simp
  have c: "previous_costs solver_default = []"
    by (simp add: solver_default_def RouteSolver_init_def)
  have t: "fl_mul PInf (fl_sub (Fin 1) (Fin (5404319552844595 / 36028797018963968))) = PInf"
    by (rule threshold_first[OF round_h0]) simp
  show ?thesis
    by (simp add: compute_routes_for_def Let_def nodes_relay route_for_target_def
        nx_path_relay_def nx_length_relay_def history_get_def h c t)
qed

theorem emitted_routes_shape_witness:
  "path_endpoints nx_path_relay
   \<and> (\<exists>routes solver'.
         compute_routes_for nx_path_relay nx_length_relay solver_default ''10.254.0.1'' topology_relay
           = (Inr routes, solver')
         \<and> routes =
             [\<lparr>dst_cidr = ''10.254.0.3/32'', next_hop = ''direct'', reason = ''default''\<rparr>,
              \<lparr>dst_cidr = ''10.254.0.2/32'', next_hop = ''10.254.0.3'',
                reason = ''optimized_path''\<rparr>])"
proof -
  from emitted_routes_shape[OF path_endpoints_relay refl,
      of nx_length_relay solver_default "''10.254.0.1''" topology_relay]
  obtain routes solver' where
    c: "compute_routes_for nx_path_relay nx_length_relay solver_default ''10.254.0.1'' topology_relay
           = (Inr routes, solver')"
    by blast
  with compute_relay have "routes =
             [\<lparr>dst_cidr = ''10.254.0.3/32'', next_hop = ''direct'', reason = ''default''\<rparr>,
              \<lparr>dst_cidr = ''10.254.0.2/32'', next_hop = ''10.254.0.3'',
                reason = ''optimized_path''\<rparr>]"
    by simp
  with c path_endpoints_relay show ?thesis by blast
qed

end
